theory Spec2Isabelle
  imports Complex_Main "HOL-Library.Word"
begin

unbundle bit_operations_syntax

section \<open>Values and exceptions\<close>

text \<open>
  The program is Python. Its integers are unbounded and are modelled as \<open>int\<close>; the
  contents of a model-specific register are a \<open>64 word\<close>, which \<open>read_msr\<close> turns
  into a Python integer (\<open>struct.unpack("<Q", ...)\<close>) and \<open>write_msr\<close> packs again
  (\<open>struct.pack("<Q", ...)\<close>, which raises outside \<open>0 .. 2^64 - 1\<close>).
  Every exception the modelled code can raise is a value of \<open>error\<close>; all of them are
  subclasses of Python's \<open>Exception\<close>, and \<open>PermissionError\<close> is kept apart from the
  other \<open>OSError\<close>s because one handler tells them apart.
\<close>

datatype error =
    OSError
  | PermissionError
  | ValueError
  | ZeroDivisionError
  | IndexError
  | StructError

section \<open>Bit fields\<close>

text \<open>
  \<^verbatim>\<open>
  def bits(value, hi, lo):
      return (value >> lo) & ((1 << (hi - lo + 1)) - 1)

  def set_bits(orig, hi, lo, field):
      mask = ((1 << (hi - lo + 1)) - 1) << lo
      return (orig & ~mask) | ((field << lo) & mask)
  \<close>
  A shift by a negative count raises \<open>ValueError\<close>; the checks below are in the order in
  which Python evaluates the shifts.
\<close>

definition bits :: "int \<Rightarrow> int \<Rightarrow> int \<Rightarrow> error + int" where
  "bits val hi lo =
     (if lo < 0 then Inl ValueError
      else if hi - lo + 1 < 0 then Inl ValueError
      else Inr (drop_bit (nat lo) val AND (push_bit (nat (hi - lo + 1)) 1 - 1)))"

definition set_bits :: "int \<Rightarrow> int \<Rightarrow> int \<Rightarrow> int \<Rightarrow> error + int" where
  "set_bits orig hi lo field =
     (if hi - lo + 1 < 0 then Inl ValueError
      else if lo < 0 then Inl ValueError
      else let msk = push_bit (nat lo) (push_bit (nat (hi - lo + 1)) 1 - 1)
           in Inr ((orig AND NOT msk) OR (push_bit (nat lo) field AND msk)))"

definition err_bind :: "error + 'a \<Rightarrow> ('a \<Rightarrow> error + 'b) \<Rightarrow> error + 'b" where
  "err_bind r f = (case r of Inl e \<Rightarrow> Inl e | Inr x \<Rightarrow> f x)"

section \<open>Python's conversions between text and integers\<close>

text \<open>
  Text is a \<open>string\<close> of ASCII characters: the names the \<open>msr\<close> driver creates under
  \<open>/dev/cpu\<close> and the text of the ratio line edits are ASCII. (Python's \<open>isdigit\<close>
  and \<open>int\<close> also know digits beyond ASCII, and \<open>int\<close> refuses more than 4300
  digits; neither arises for these inputs and neither is modelled.)
  \<open>isdigit\<close> is \<open>str.isdigit\<close>: non-empty and decimal digits only. \<open>strip\<close> is
  \<open>str.strip()\<close>. \<open>py_int\<close> is \<open>int(text)\<close>: surrounding white space, an optional
  sign, then digits, single underscores allowed between digits; anything else raises
  \<open>ValueError\<close>. \<open>py_str\<close> is \<open>str(n)\<close> of an integer.
\<close>

definition is_digit_char :: "char \<Rightarrow> bool" where
  "is_digit_char c = (c \<in> set ''0123456789'')"

definition digit_val :: "char \<Rightarrow> nat" where
  "digit_val c = length (takeWhile (\<lambda>d. d \<noteq> c) ''0123456789'')"

definition digit_char :: "nat \<Rightarrow> char" where
  "digit_char d = ''0123456789'' ! d"

definition isdigit :: "string \<Rightarrow> bool" where
  "isdigit s = (s \<noteq> [] \<and> list_all is_digit_char s)"

definition is_space_char :: "char \<Rightarrow> bool" where
  "is_space_char c =
     (c \<in> set [CHR 0x09, CHR 0x0A, CHR 0x0B, CHR 0x0C, CHR 0x0D,
                CHR 0x1C, CHR 0x1D, CHR 0x1E, CHR 0x1F, CHR 0x20])"

definition strip :: "string \<Rightarrow> string" where
  "strip s = rev (dropWhile is_space_char (rev (dropWhile is_space_char s)))"

fun int_digits :: "nat \<Rightarrow> string \<Rightarrow> nat option" where
  "int_digits acc [] = Some acc"
| "int_digits acc [c] =
     (if is_digit_char c then Some (acc * 10 + digit_val c) else None)"
| "int_digits acc (c # d # cs) =
     (if is_digit_char c then int_digits (acc * 10 + digit_val c) (d # cs)
      else if c = CHR ''_'' \<and> is_digit_char d then int_digits acc (d # cs)
      else None)"

definition int_unsigned :: "string \<Rightarrow> nat option" where
  "int_unsigned s =
     (case s of [] \<Rightarrow> None
      | c # cs \<Rightarrow> if is_digit_char c then int_digits (digit_val c) cs else None)"

definition py_int :: "string \<Rightarrow> error + int" where
  "py_int text =
     (let s = strip text;
          r = (case s of [] \<Rightarrow> None
               | c # cs \<Rightarrow>
                   if c = CHR ''-'' then map_option (\<lambda>n. - int n) (int_unsigned cs)
                   else if c = CHR ''+'' then map_option int (int_unsigned cs)
                   else map_option int (int_unsigned s))
      in case r of None \<Rightarrow> Inl ValueError | Some n \<Rightarrow> Inr n)"

function str_nat :: "nat \<Rightarrow> string" where
  "str_nat n =
     (if n < 10 then [digit_char n] else str_nat (n div 10) @ [digit_char (n mod 10)])"
  by pat_completeness auto
termination
  by (relation "measure id") auto

declare str_nat.simps [simp del]

definition py_str :: "int \<Rightarrow> string" where
  "py_str n = (if n < 0 then CHR ''-'' # str_nat (nat (- n)) else str_nat (nat n))"

section \<open>Python's floats\<close>

text \<open>
  A float is modelled by the rational number it denotes and float arithmetic by exact
  arithmetic. For the units the program works with this is what the floats compute: a
  RAPL unit is \<open>1.0 / (1 << n)\<close> with \<open>n \<le> 15\<close>, a power of two, and multiplying or
  dividing a float by it is exact. Infinities and NaN are outside the model.
  \<open>py_div\<close> is \<open>/\<close>, which raises on a zero divisor; \<open>py_round\<close> is \<open>round(x)\<close>
  of a float, which returns an integer and rounds a tie to the even neighbour.
\<close>

definition py_div :: "rat \<Rightarrow> rat \<Rightarrow> error + rat" where
  "py_div a b = (if b = 0 then Inl ZeroDivisionError else Inr (a / b))"

definition py_round :: "rat \<Rightarrow> int" where
  "py_round x =
     (let f = \<lfloor>x\<rfloor>; d = x - of_int f
      in if d < 1 / 2 then f
         else if 1 / 2 < d then f + 1
         else if even f then f else f + 1)"

section \<open>The machine\<close>

text \<open>
  What the program reaches through the file system, as one state:
  \<^item> \<open>dev_cpu\<close>: what \<open>os.listdir("/dev/cpu")\<close> returns, \<open>None\<close> when the directory
    does not exist (the call then raises \<open>FileNotFoundError\<close>, an \<open>OSError\<close>);
  \<^item> \<open>msr_open\<close>: the exception, if any, of \<open>os.open("/dev/cpu/<cpu>/msr", ...)\<close>,
    for reading (\<open>False\<close>) or for writing (\<open>True\<close>);
  \<^item> \<open>msr_reg\<close>: per CPU and register address, the eight bytes a read returns, or the
    exception of the read (a short read makes \<open>struct.unpack\<close> raise);
  \<^item> \<open>msr_write_err\<close>: the exception, if any, of writing a value to a register of a CPU;
  \<^item> \<open>fan_write_err\<close>: the exception, if any, of writing a text to
    \<open>/proc/acpi/ibm/fan\<close>, given the texts written before;
  \<^item> \<open>fan_written\<close>: the texts the fan file has accepted, oldest first;
  \<^item> \<open>trace\<close>: the calls made to the hardware helpers and the dialogs shown, oldest
    first.
  The register device is a store of its own for each CPU: a write that succeeds replaces
  the value of that register of that CPU and nothing else.
\<close>

datatype event =
    ListDir
  | MsrRead int int
  | MsrWrite int int int
  | FanWrite string
  | MsgWarning string string
  | MsgCritical string string "error option"

record machine =
  dev_cpu :: "string list option"
  msr_open :: "int \<Rightarrow> bool \<Rightarrow> error option"
  msr_reg :: "int \<Rightarrow> int \<Rightarrow> error + 64 word"
  msr_write_err :: "int \<Rightarrow> int \<Rightarrow> int \<Rightarrow> error option"
  fan_write_err :: "string list \<Rightarrow> string \<Rightarrow> error option"
  fan_written :: "string list"
  trace :: "event list"

definition log_event :: "event \<Rightarrow> machine \<Rightarrow> machine" where
  "log_event e m = m\<lparr>trace := trace m @ [e]\<rparr>"

text \<open>The events a run from \<open>m\<close> to \<open>m'\<close> has added to the trace.\<close>

definition new_events :: "machine \<Rightarrow> machine \<Rightarrow> event list" where
  "new_events m m' = drop (length (trace m)) (trace m')"

definition MSR_TURBO_RATIO_LIMIT :: int where
  "MSR_TURBO_RATIO_LIMIT = 0x1AD"

definition MSR_RAPL_POWER_UNIT :: int where
  "MSR_RAPL_POWER_UNIT = 0x606"

definition MSR_PKG_POWER_LIMIT :: int where
  "MSR_PKG_POWER_LIMIT = 0x610"

definition FAN_WATCHDOG_SECONDS :: int where
  "FAN_WATCHDOG_SECONDS = 30"

section \<open>Low-level MSR helpers\<close>

text \<open>
  \<^verbatim>\<open>
  def read_msr(msr, cpu=0):
      fd = os.open(f"/dev/cpu/{cpu}/msr", os.O_RDONLY)
      try:
          os.lseek(fd, msr, os.SEEK_SET)
          buf = os.read(fd, 8)
          return struct.unpack("<Q", buf)[0]
      finally:
          os.close(fd)

  def write_msr(msr, value, cpu=0):
      fd = os.open(f"/dev/cpu/{cpu}/msr", os.O_WRONLY)
      try:
          os.lseek(fd, msr, os.SEEK_SET)
          os.write(fd, struct.pack("<Q", value))
      finally:
          os.close(fd)
  \<close>
  A stateful function returns its result, or the exception it raised, together with the
  machine it leaves behind.
\<close>

definition read_msr :: "int \<Rightarrow> int \<Rightarrow> machine \<Rightarrow> (error + int) \<times> machine" where
  "read_msr msr cpu m =
     (let m' = log_event (MsrRead cpu msr) m
      in case msr_open m cpu False of
           Some e \<Rightarrow> (Inl e, m')
         | None \<Rightarrow>
             (case msr_reg m cpu msr of
                Inl e \<Rightarrow> (Inl e, m')
              | Inr w \<Rightarrow> (Inr (uint w), m')))"

definition write_msr :: "int \<Rightarrow> int \<Rightarrow> int \<Rightarrow> machine \<Rightarrow> (error + unit) \<times> machine" where
  "write_msr msr val cpu m =
     (let m' = log_event (MsrWrite cpu msr val) m
      in case msr_open m cpu True of
           Some e \<Rightarrow> (Inl e, m')
         | None \<Rightarrow>
             if val < 0 \<or> 2 ^ 64 \<le> val then (Inl StructError, m')
             else (case msr_write_err m cpu msr val of
                     Some e \<Rightarrow> (Inl e, m')
                   | None \<Rightarrow>
                       (Inr (),
                        m'\<lparr>msr_reg :=
                             (msr_reg m)(cpu := (msr_reg m cpu)(msr := Inr (word_of_int val)))\<rparr>)))"

text \<open>
  \<^verbatim>\<open>
  def online_cpus():
      cpus = []
      for entry in os.listdir("/dev/cpu"):
          if entry.isdigit():
              cpus.append(int(entry))
      return sorted(cpus)
  \<close>
\<close>

fun online_cpus_loop :: "int list \<Rightarrow> string list \<Rightarrow> error + int list" where
  "online_cpus_loop cpus [] = Inr cpus"
| "online_cpus_loop cpus (entry # entries) =
     (if isdigit entry then
        (case py_int entry of
           Inl e \<Rightarrow> Inl e
         | Inr n \<Rightarrow> online_cpus_loop (cpus @ [n]) entries)
      else online_cpus_loop cpus entries)"

definition online_cpus :: "machine \<Rightarrow> (error + int list) \<times> machine" where
  "online_cpus m =
     (let m' = log_event ListDir m
      in case dev_cpu m of
           None \<Rightarrow> (Inl OSError, m')
         | Some entries \<Rightarrow>
             (case online_cpus_loop [] entries of
                Inl e \<Rightarrow> (Inl e, m')
              | Inr cpus \<Rightarrow> (Inr (sort cpus), m')))"

text \<open>
  \<^verbatim>\<open>
  def write_msr_all_cpus(msr, value):
      for cpu in online_cpus():
          write_msr(msr, value, cpu)
  \<close>
\<close>

fun write_msr_each :: "int \<Rightarrow> int \<Rightarrow> int list \<Rightarrow> machine \<Rightarrow> (error + unit) \<times> machine" where
  "write_msr_each msr val [] m = (Inr (), m)"
| "write_msr_each msr val (cpu # cpus) m =
     (case write_msr msr val cpu m of
        (Inl e, m') \<Rightarrow> (Inl e, m')
      | (Inr u, m') \<Rightarrow> write_msr_each msr val cpus m')"

definition write_msr_all_cpus :: "int \<Rightarrow> int \<Rightarrow> machine \<Rightarrow> (error + unit) \<times> machine" where
  "write_msr_all_cpus msr val m =
     (case online_cpus m of
        (Inl e, m') \<Rightarrow> (Inl e, m')
      | (Inr cpus, m') \<Rightarrow> write_msr_each msr val cpus m')"

section \<open>Turbo ratios\<close>

text \<open>
  \<^verbatim>\<open>
  def read_turbo_ratios():
      raw = read_msr(MSR_TURBO_RATIO_LIMIT)
      ratios = []
      for i in range(8):
          ratios.append(bits(raw, i * 8 + 7, i * 8))
      return ratios

  def write_turbo_ratios(ratios):
      val = 0
      for i, r in enumerate(ratios):
          val = set_bits(val, i * 8 + 7, i * 8, r)
      write_msr_all_cpus(MSR_TURBO_RATIO_LIMIT, val)
  \<close>
\<close>

fun read_turbo_ratios_loop :: "int \<Rightarrow> int list \<Rightarrow> int list \<Rightarrow> error + int list" where
  "read_turbo_ratios_loop raw ratios [] = Inr ratios"
| "read_turbo_ratios_loop raw ratios (i # is) =
     (case bits raw (i * 8 + 7) (i * 8) of
        Inl e \<Rightarrow> Inl e
      | Inr b \<Rightarrow> read_turbo_ratios_loop raw (ratios @ [b]) is)"

definition read_turbo_ratios :: "machine \<Rightarrow> (error + int list) \<times> machine" where
  "read_turbo_ratios m =
     (case read_msr MSR_TURBO_RATIO_LIMIT 0 m of
        (Inl e, m') \<Rightarrow> (Inl e, m')
      | (Inr raw, m') \<Rightarrow> (read_turbo_ratios_loop raw [] [0, 1, 2, 3, 4, 5, 6, 7], m'))"

fun write_turbo_ratios_loop :: "int \<Rightarrow> int \<Rightarrow> int list \<Rightarrow> error + int" where
  "write_turbo_ratios_loop val i [] = Inr val"
| "write_turbo_ratios_loop val i (r # rs) =
     (case set_bits val (i * 8 + 7) (i * 8) r of
        Inl e \<Rightarrow> Inl e
      | Inr val' \<Rightarrow> write_turbo_ratios_loop val' (i + 1) rs)"

definition write_turbo_ratios :: "int list \<Rightarrow> machine \<Rightarrow> (error + unit) \<times> machine" where
  "write_turbo_ratios ratios m =
     (case write_turbo_ratios_loop 0 0 ratios of
        Inl e \<Rightarrow> (Inl e, m)
      | Inr val \<Rightarrow> write_msr_all_cpus MSR_TURBO_RATIO_LIMIT val m)"

section \<open>Power limits\<close>

text \<open>
  \<^verbatim>\<open>
  def read_rapl_units():
      val = read_msr(MSR_RAPL_POWER_UNIT)
      power_unit = 1.0 / (1 << bits(val, 3, 0))
      time_unit = 1.0 / (1 << bits(val, 19, 16))
      return power_unit, time_unit

  def _decode_time_window(field, time_unit):
      y = field & 0x1F
      z = (field >> 5) & 0x3
      return (2 ** y) * (1.0 + z / 4.0) * time_unit
  \<close>
  In \<open>_decode_time_window\<close> the exponent \<open>y\<close> is the result of an \<open>&\<close> with a positive
  mask and so never negative: \<open>2 ** y\<close> is an integer power.
\<close>

definition read_rapl_units :: "machine \<Rightarrow> (error + rat \<times> rat) \<times> machine" where
  "read_rapl_units m =
     (case read_msr MSR_RAPL_POWER_UNIT 0 m of
        (Inl e, m') \<Rightarrow> (Inl e, m')
      | (Inr val, m') \<Rightarrow>
          (err_bind (bits val 3 0) (\<lambda>p.
           err_bind (bits val 19 16) (\<lambda>t.
           Inr (1 / of_int (push_bit (nat p) 1), 1 / of_int (push_bit (nat t) 1)))), m'))"

definition decode_time_window :: "int \<Rightarrow> rat \<Rightarrow> rat" where
  "decode_time_window field tu =
     (let y = field AND 0x1F;
          z = drop_bit 5 field AND 0x3
      in of_int (2 ^ nat y) * (1 + of_int z / 4) * tu)"

text \<open>
  \<^verbatim>\<open>
  def read_power_limits(power_unit, time_unit):
      raw = read_msr(MSR_PKG_POWER_LIMIT)
      return {
          "pl1_w": bits(raw, 14, 0) * power_unit,
          "pl1_enabled": bool(bits(raw, 15, 15)),
          "pl1_time": _decode_time_window(bits(raw, 23, 17), time_unit),
          "pl2_w": bits(raw, 46, 32) * power_unit,
          "pl2_enabled": bool(bits(raw, 47, 47)),
          "pl2_time": _decode_time_window(bits(raw, 55, 49), time_unit),
          "locked": bool(bits(raw, 63, 63)),
      }
  \<close>
\<close>

record power_limits =
  pl1_w :: rat
  pl1_enabled :: bool
  pl1_time :: rat
  pl2_w :: rat
  pl2_enabled :: bool
  pl2_time :: rat
  locked :: bool

definition read_power_limits :: "rat \<Rightarrow> rat \<Rightarrow> machine \<Rightarrow> (error + power_limits) \<times> machine" where
  "read_power_limits pu tu m =
     (case read_msr MSR_PKG_POWER_LIMIT 0 m of
        (Inl e, m') \<Rightarrow> (Inl e, m')
      | (Inr raw, m') \<Rightarrow>
          (err_bind (bits raw 14 0) (\<lambda>w1.
           err_bind (bits raw 15 15) (\<lambda>e1.
           err_bind (bits raw 23 17) (\<lambda>t1.
           err_bind (bits raw 46 32) (\<lambda>w2.
           err_bind (bits raw 47 47) (\<lambda>e2.
           err_bind (bits raw 55 49) (\<lambda>t2.
           err_bind (bits raw 63 63) (\<lambda>l.
           Inr \<lparr>pl1_w = of_int w1 * pu,
                pl1_enabled = (e1 \<noteq> 0),
                pl1_time = decode_time_window t1 tu,
                pl2_w = of_int w2 * pu,
                pl2_enabled = (e2 \<noteq> 0),
                pl2_time = decode_time_window t2 tu,
                locked = (l \<noteq> 0)\<rparr>))))))), m'))"

text \<open>
  \<^verbatim>\<open>
  def write_pl_watts(pl1_w, pl2_w, power_unit):
      raw = read_msr(MSR_PKG_POWER_LIMIT)
      if pl1_w is not None:
          raw = set_bits(raw, 14, 0, int(round(pl1_w / power_unit)))
          raw = set_bits(raw, 15, 15, 1)  # enable PL1
      if pl2_w is not None:
          raw = set_bits(raw, 46, 32, int(round(pl2_w / power_unit)))
          raw = set_bits(raw, 47, 47, 1)  # enable PL2
      raw = set_bits(raw, 63, 63, 0)  # never set lock bit
      write_msr_all_cpus(MSR_PKG_POWER_LIMIT, raw)
  \<close>
  \<open>pl_watts_raw\<close> is the part between the read and the broadcast: the value computed
  from the value read.
\<close>

definition pl_watts_raw :: "int \<Rightarrow> rat option \<Rightarrow> rat option \<Rightarrow> rat \<Rightarrow> error + int" where
  "pl_watts_raw raw w1 w2 pu =
     err_bind
       (case w1 of
          None \<Rightarrow> Inr raw
        | Some w \<Rightarrow>
            err_bind (py_div w pu) (\<lambda>q.
            err_bind (set_bits raw 14 0 (py_round q)) (\<lambda>r.
            set_bits r 15 15 1)))
       (\<lambda>raw1.
     err_bind
       (case w2 of
          None \<Rightarrow> Inr raw1
        | Some w \<Rightarrow>
            err_bind (py_div w pu) (\<lambda>q.
            err_bind (set_bits raw1 46 32 (py_round q)) (\<lambda>r.
            set_bits r 47 47 1)))
       (\<lambda>raw2. set_bits raw2 63 63 0))"

definition write_pl_watts ::
  "rat option \<Rightarrow> rat option \<Rightarrow> rat \<Rightarrow> machine \<Rightarrow> (error + unit) \<times> machine" where
  "write_pl_watts w1 w2 pu m =
     (case read_msr MSR_PKG_POWER_LIMIT 0 m of
        (Inl e, m') \<Rightarrow> (Inl e, m')
      | (Inr raw, m') \<Rightarrow>
          (case pl_watts_raw raw w1 w2 pu of
             Inl e \<Rightarrow> (Inl e, m')
           | Inr val \<Rightarrow> write_msr_all_cpus MSR_PKG_POWER_LIMIT val m'))"

section \<open>Fan control file\<close>

text \<open>
  \<^verbatim>\<open>
  def write_fan_level(level):
      with open(FAN_PROC_PATH, "w") as f:
          f.write(f"level {level}\n")

  def write_fan_watchdog(timeout):
      with open(FAN_PROC_PATH, "w") as f:
          f.write(f"watchdog {timeout}\n")
  \<close>
\<close>

definition fan_write :: "string \<Rightarrow> machine \<Rightarrow> (error + unit) \<times> machine" where
  "fan_write text m =
     (let m' = log_event (FanWrite text) m
      in case fan_write_err m (fan_written m) text of
           Some e \<Rightarrow> (Inl e, m')
         | None \<Rightarrow> (Inr (), m'\<lparr>fan_written := fan_written m @ [text]\<rparr>))"

definition write_fan_level :: "string \<Rightarrow> machine \<Rightarrow> (error + unit) \<times> machine" where
  "write_fan_level level m = fan_write (''level '' @ level @ [CHR 0x0A]) m"

definition write_fan_watchdog :: "int \<Rightarrow> machine \<Rightarrow> (error + unit) \<times> machine" where
  "write_fan_watchdog timeout m = fan_write (''watchdog '' @ py_str timeout @ [CHR 0x0A]) m"

section \<open>The window\<close>

text \<open>
  The state of \<open>OverclockWindow\<close> that the handlers below read:
  \<^item> \<open>fan_available\<close>: set once, when the window is built, from
    \<open>os.path.exists(FAN_PROC_PATH)\<close>;
  \<^item> \<open>ratio_inputs\<close>: the text of each ratio line edit (the window builds four);
  \<^item> \<open>fan_mode_index\<close>: \<open>fan_mode_combo.currentIndex()\<close> (0 Auto, 1 Manual,
    2 Full-Speed, 3 Disengaged);
  \<^item> \<open>fan_level_value\<close>: \<open>fan_level_slider.value()\<close>.
\<close>

record window =
  fan_available :: bool
  ratio_inputs :: "string list"
  fan_mode_index :: int
  fan_level_value :: int

text \<open>
  \<^verbatim>\<open>
  def _apply_ratios(self):
      new_ratios = []
      for i, edit in enumerate(self.ratio_inputs):
          text = edit.text().strip()
          if not text:
              QMessageBox.warning(self, "Input Error",
                  f"Please enter a ratio for {i + 1}-core turbo.")
              return
          ratio = int(text)
          if ratio < 20 or ratio > 42:
              QMessageBox.warning(self, "Input Error",
                  f"{i + 1}-core ratio must be between 20 and 42.")
              return
          new_ratios.append(ratio)
      for i in range(len(new_ratios) - 1):
          if new_ratios[i] < new_ratios[i + 1]:
              QMessageBox.warning(self, "Input Error",
                  f"{i + 1}-core ratio ({new_ratios[i]}) must be >= "
                  f"{i + 2}-core ratio ({new_ratios[i + 1]}).")
              return
      try:
          current = read_turbo_ratios()
          for i in range(4):
              current[i] = new_ratios[i]
          write_turbo_ratios(current)
      except Exception as e:
          QMessageBox.critical(self, "Error", f"Failed to write ratios: {e}")
  \<close>
  Each of the two validation loops either raises, or shows a warning and returns, or
  runs to its end.
\<close>

datatype 'a checked = Raised error | Rejected event | Passed 'a

fun parse_ratios_loop :: "int \<Rightarrow> int list \<Rightarrow> string list \<Rightarrow> int list checked" where
  "parse_ratios_loop i new_ratios [] = Passed new_ratios"
| "parse_ratios_loop i new_ratios (edit # edits) =
     (let text = strip edit
      in if text = [] then
           Rejected (MsgWarning ''Input Error''
             (''Please enter a ratio for '' @ py_str (i + 1) @ ''-core turbo.''))
         else
           (case py_int text of
              Inl e \<Rightarrow> Raised e
            | Inr ratio \<Rightarrow>
                if ratio < 20 \<or> ratio > 42 then
                  Rejected (MsgWarning ''Input Error''
                    (py_str (i + 1) @ ''-core ratio must be between 20 and 42.''))
                else parse_ratios_loop (i + 1) (new_ratios @ [ratio]) edits))"

fun order_ratios_loop :: "int \<Rightarrow> int list \<Rightarrow> unit checked" where
  "order_ratios_loop i (a # b # rs) =
     (if a < b then
        Rejected (MsgWarning ''Input Error''
          (py_str (i + 1) @ ''-core ratio ('' @ py_str a @ '') must be >= ''
           @ py_str (i + 2) @ ''-core ratio ('' @ py_str b @ '').''))
      else order_ratios_loop (i + 1) (b # rs))"
| "order_ratios_loop i rs = Passed ()"

fun replace_ratios_loop :: "int list \<Rightarrow> int list \<Rightarrow> nat list \<Rightarrow> error + int list" where
  "replace_ratios_loop current new_ratios [] = Inr current"
| "replace_ratios_loop current new_ratios (i # is) =
     (if i < length new_ratios \<and> i < length current
      then replace_ratios_loop (current[i := new_ratios ! i]) new_ratios is
      else Inl IndexError)"

definition write_new_ratios :: "int list \<Rightarrow> machine \<Rightarrow> (error + unit) \<times> machine" where
  "write_new_ratios new_ratios m =
     (case read_turbo_ratios m of
        (Inl e, m') \<Rightarrow> (Inl e, m')
      | (Inr current, m') \<Rightarrow>
          (case replace_ratios_loop current new_ratios [0, 1, 2, 3] of
             Inl e \<Rightarrow> (Inl e, m')
           | Inr current' \<Rightarrow> write_turbo_ratios current' m'))"

definition apply_ratios :: "window \<Rightarrow> machine \<Rightarrow> (error + unit) \<times> machine" where
  "apply_ratios self m =
     (case parse_ratios_loop 0 [] (ratio_inputs self) of
        Raised e \<Rightarrow> (Inl e, m)
      | Rejected warning \<Rightarrow> (Inr (), log_event warning m)
      | Passed new_ratios \<Rightarrow>
          (case order_ratios_loop 0 new_ratios of
             Raised e \<Rightarrow> (Inl e, m)
           | Rejected warning \<Rightarrow> (Inr (), log_event warning m)
           | Passed u \<Rightarrow>
               (case write_new_ratios new_ratios m of
                  (Inl e, m') \<Rightarrow>
                    (Inr (), log_event (MsgCritical ''Error'' ''Failed to write ratios: '' (Some e)) m')
                | (Inr u, m') \<Rightarrow> (Inr (), m'))))"

text \<open>
  \<^verbatim>\<open>
  def _apply_fan_setting(self):
      index = self.fan_mode_combo.currentIndex()
      if index == 0:
          level_str = "auto"
      elif index == 1:
          level_str = str(self.fan_level_slider.value())
      elif index == 2:
          level_str = "full-speed"
      elif index == 3:
          level_str = "disengaged"
      else:
          return
      if index == 3:
          reply = QMessageBox.warning(self, "Confirm Disengaged Mode", ...,
              QMessageBox.Yes | QMessageBox.No, QMessageBox.No)
          if reply != QMessageBox.Yes:
              return
      try:
          write_fan_level(level_str)
          if level_str != "auto":
              write_fan_watchdog(FAN_WATCHDOG_SECONDS)
          else:
              write_fan_watchdog(0)
      except PermissionError:
          QMessageBox.critical(self, "Permission Error", ...)
      except Exception as e:
          QMessageBox.critical(self, "Error", f"Failed to set fan level: {e}")
  \<close>
  \<open>reply_yes\<close> is the operator's answer to the confirmation dialog, should it be shown.
\<close>

definition fan_level_str :: "window \<Rightarrow> string option" where
  "fan_level_str self =
     (let index = fan_mode_index self
      in if index = 0 then Some ''auto''
         else if index = 1 then Some (py_str (fan_level_value self))
         else if index = 2 then Some ''full-speed''
         else if index = 3 then Some ''disengaged''
         else None)"

definition write_fan_setting :: "string \<Rightarrow> machine \<Rightarrow> (error + unit) \<times> machine" where
  "write_fan_setting level_str m =
     (case write_fan_level level_str m of
        (Inl e, m') \<Rightarrow> (Inl e, m')
      | (Inr u, m') \<Rightarrow>
          if level_str \<noteq> ''auto'' then write_fan_watchdog FAN_WATCHDOG_SECONDS m'
          else write_fan_watchdog 0 m')"

definition confirm_disengaged :: event where
  "confirm_disengaged =
     MsgWarning ''Confirm Disengaged Mode''
       (''Disengaged mode removes firmware speed limits on the fan.'' @ [CHR 0x0A, CHR 0x0A]
        @ ''Are you sure you want to proceed?'')"

definition fan_permission_error :: event where
  "fan_permission_error =
     MsgCritical ''Permission Error''
       (''Cannot write to fan control interface.'' @ [CHR 0x0A, CHR 0x0A]
        @ ''Ensure thinkpad_acpi is loaded with fan_control=1:'' @ [CHR 0x0A]
        @ ''  modprobe thinkpad_acpi fan_control=1'') None"

definition apply_fan_setting :: "window \<Rightarrow> bool \<Rightarrow> machine \<Rightarrow> (error + unit) \<times> machine" where
  "apply_fan_setting self reply_yes m =
     (case fan_level_str self of
        None \<Rightarrow> (Inr (), m)
      | Some level_str \<Rightarrow>
          (let m0 = (if fan_mode_index self = 3 then log_event confirm_disengaged m else m)
           in if fan_mode_index self = 3 \<and> \<not> reply_yes then (Inr (), m0)
              else
                (case write_fan_setting level_str m0 of
                   (Inl PermissionError, m') \<Rightarrow> (Inr (), log_event fan_permission_error m')
                 | (Inl e, m') \<Rightarrow>
                     (Inr (), log_event (MsgCritical ''Error'' ''Failed to set fan level: '' (Some e)) m')
                 | (Inr u, m') \<Rightarrow> (Inr (), m'))))"

text \<open>
  \<^verbatim>\<open>
  def closeEvent(self, event):
      if self.fan_available:
          try:
              write_fan_level("auto")
              write_fan_watchdog(0)
          except Exception:
              pass
      event.accept()
  \<close>
  The result is whether the close event has been accepted.
\<close>

definition restore_fan :: "machine \<Rightarrow> (error + unit) \<times> machine" where
  "restore_fan m =
     (case write_fan_level ''auto'' m of
        (Inl e, m') \<Rightarrow> (Inl e, m')
      | (Inr u, m') \<Rightarrow> write_fan_watchdog 0 m')"

definition closeEvent :: "window \<Rightarrow> machine \<Rightarrow> (error + bool) \<times> machine" where
  "closeEvent self m =
     (if fan_available self then
        (case restore_fan m of
           (Inl e, m') \<Rightarrow> (Inr True, m')
         | (Inr u, m') \<Rightarrow> (Inr True, m'))
      else (Inr True, m))"

section \<open>Sample machines\<close>

text \<open>
  A machine on which every access succeeds: \<open>/dev/cpu\<close> lists CPUs 1 and 0 and the
  \<open>microcode\<close> device, every register of CPU 0 holds \<open>r0\<close> and every register of the
  other CPUs holds \<open>r1\<close>.
\<close>

definition sample_machine :: "64 word \<Rightarrow> 64 word \<Rightarrow> machine" where
  "sample_machine r0 r1 =
     \<lparr>dev_cpu = Some [''1'', ''microcode'', ''0''],
      msr_open = (\<lambda>cpu wr. None),
      msr_reg = (\<lambda>cpu msr. Inr (if cpu = 0 then r0 else r1)),
      msr_write_err = (\<lambda>cpu msr val. None),
      fan_write_err = (\<lambda>written text. None),
      fan_written = [],
      trace = []\<rparr>"

text \<open>
  The number a string of decimal digits denotes: what parsing a purely numeric entry
  name has to return.
\<close>

definition cpu_number :: "string \<Rightarrow> int" where
  "cpu_number s = int (foldl (\<lambda>a c. a * 10 + digit_val c) 0 s)"

text \<open>The texts of the writes to the fan control file among some events, in their order.\<close>

definition fan_writes :: "event list \<Rightarrow> string list" where
  "fan_writes es = concat (map (\<lambda>e. case e of FanWrite text \<Rightarrow> [text] | _ \<Rightarrow> []) es)"

section \<open>Properties of the bit-field codec\<close>

lemma two_power_minus_one: "(2::int) ^ n - 1 = mask n"
  by (simp add: mask_eq_exp_minus_1)

lemma bits_ok:
  "0 \<le> lo \<Longrightarrow> lo \<le> hi \<Longrightarrow>
   bits v hi lo = Inr (take_bit (nat (hi - lo + 1)) (drop_bit (nat lo) v))"
  by (simp add: bits_def two_power_minus_one take_bit_eq_mask)

lemma set_bits_ok:
  "0 \<le> lo \<Longrightarrow> lo \<le> hi \<Longrightarrow>
   set_bits v hi lo f =
     Inr ((v AND NOT (push_bit (nat lo) (mask (nat (hi - lo + 1)))))
          OR push_bit (nat lo) (take_bit (nat (hi - lo + 1)) f))"
  apply (simp add: set_bits_def two_power_minus_one Let_def)
  apply (rule bit_eqI)
  apply (auto simp add: bit_simps)
  done

text \<open>
  Claim C5. Inserting a field \<open>f\<close> into the bit range \<open>[lo, hi]\<close> of any base value
  \<open>v\<close> and extracting the same range again succeeds and returns
  \<open>f & ((1 << (hi - lo + 1)) - 1)\<close>, the field truncated to the width of the range,
  whatever the base value was. The statement holds for every Python integer \<open>v\<close> and
  \<open>f\<close> (negative fields included) and every range with \<open>0 \<le> lo \<le> hi\<close>, so in
  particular for 64-bit values and \<open>hi \<le> 63\<close>.
\<close>

theorem set_bits_then_bits:
  "0 \<le> lo \<Longrightarrow> lo \<le> hi \<Longrightarrow>
   (\<exists>w. set_bits v hi lo f = Inr w \<and>
        bits w hi lo = Inr (f AND (push_bit (nat (hi - lo + 1)) 1 - 1)))"
  apply (simp add: set_bits_ok bits_ok two_power_minus_one take_bit_eq_mask [symmetric])
  apply (rule bit_eqI)
  apply (auto simp add: bit_simps)
  done

theorem set_bits_then_bits_witness:
  "(0::int) \<le> 8 \<and> (8::int) \<le> 15 \<and>
   (\<exists>w. set_bits 0 15 8 (- 1) = Inr w \<and> bits w 15 8 = Inr ((- 1) AND (push_bit (nat (15 - 8 + 1)) 1 - 1)))"
  using set_bits_then_bits [of 8 15 0 "- 1"] by simp

section \<open>The trace of the hardware helpers\<close>

lemma trace_log_event [simp]: "trace (log_event e m) = trace m @ [e]"
  by (simp add: log_event_def)

lemma log_event_fields [simp]:
  "dev_cpu (log_event e m) = dev_cpu m"
  "msr_open (log_event e m) = msr_open m"
  "msr_reg (log_event e m) = msr_reg m"
  "msr_write_err (log_event e m) = msr_write_err m"
  "fan_write_err (log_event e m) = fan_write_err m"
  "fan_written (log_event e m) = fan_written m"
  by (simp_all add: log_event_def)

lemma snd_read_msr: "snd (read_msr a c m) = log_event (MsrRead c a) m"
  by (simp add: read_msr_def Let_def split: option.splits sum.splits)

lemma fst_read_msr:
  "fst (read_msr a c m) =
     (case msr_open m c False of Some e \<Rightarrow> Inl e
      | None \<Rightarrow> (case msr_reg m c a of Inl e \<Rightarrow> Inl e | Inr w \<Rightarrow> Inr (uint w)))"
  by (simp add: read_msr_def Let_def split: option.splits sum.splits)

lemma read_msr_Inr:
  "read_msr a c m = (Inr raw, m') \<Longrightarrow>
   m' = log_event (MsrRead c a) m \<and> msr_open m c False = None \<and>
   (\<exists>w. msr_reg m c a = Inr w \<and> raw = uint w)"
  by (auto simp add: read_msr_def Let_def split: option.splits sum.splits)

lemma read_msr_Inl:
  "read_msr a c m = (Inl e, m') \<Longrightarrow> m' = log_event (MsrRead c a) m"
  by (auto simp add: read_msr_def Let_def split: option.splits sum.splits)

lemma write_msr_fields [simp]:
  "trace (snd (write_msr a v c m)) = trace m @ [MsrWrite c a v]"
  "dev_cpu (snd (write_msr a v c m)) = dev_cpu m"
  "msr_open (snd (write_msr a v c m)) = msr_open m"
  "msr_write_err (snd (write_msr a v c m)) = msr_write_err m"
  "fan_write_err (snd (write_msr a v c m)) = fan_write_err m"
  "fan_written (snd (write_msr a v c m)) = fan_written m"
  by (simp_all add: write_msr_def Let_def split: option.splits)

lemma write_msr_each_trace:
  "\<exists>cs'. trace (snd (write_msr_each a v cs m)) = trace m @ map (\<lambda>c. MsrWrite c a v) cs'"
proof (induction cs arbitrary: m)
  case Nil
  then show ?case by simp
next
  case (Cons c cs)
  show ?case
  proof (cases "write_msr a v c m")
    case (Pair r m1)
    have t: "trace m1 = trace m @ [MsrWrite c a v]"
      using write_msr_fields(1) [of a v c m] Pair by simp
    show ?thesis
    proof (cases r)
      case (Inl e)
      with Pair t have "trace (snd (write_msr_each a v (c # cs) m)) = trace m @ map (\<lambda>c. MsrWrite c a v) [c]"
        by simp
      then show ?thesis by blast
    next
      case (Inr u)
      from Cons.IH [of m1] obtain cs' where
        "trace (snd (write_msr_each a v cs m1)) = trace m1 @ map (\<lambda>c. MsrWrite c a v) cs'" by blast
      with Pair Inr t have "trace (snd (write_msr_each a v (c # cs) m)) = trace m @ map (\<lambda>c. MsrWrite c a v) (c # cs')"
        by simp
      then show ?thesis by blast
    qed
  qed
qed

lemma snd_online_cpus: "snd (online_cpus m) = log_event ListDir m"
  by (simp add: online_cpus_def Let_def split: option.splits sum.splits)

lemma write_msr_all_cpus_trace:
  "\<exists>cs'. trace (snd (write_msr_all_cpus a v m)) = trace m @ ListDir # map (\<lambda>c. MsrWrite c a v) cs'"
proof (cases "online_cpus m")
  case (Pair r m1)
  have m1: "m1 = log_event ListDir m" using snd_online_cpus [of m] Pair by simp
  show ?thesis
  proof (cases r)
    case (Inl e)
    with Pair m1 have "trace (snd (write_msr_all_cpus a v m)) = trace m @ ListDir # map (\<lambda>c. MsrWrite c a v) []"
      by (simp add: write_msr_all_cpus_def)
    then show ?thesis by blast
  next
    case (Inr cs)
    from write_msr_each_trace [of a v cs m1] obtain cs' where
      "trace (snd (write_msr_each a v cs m1)) = trace m1 @ map (\<lambda>c. MsrWrite c a v) cs'" by blast
    with Pair Inr m1 have "trace (snd (write_msr_all_cpus a v m)) = trace m @ ListDir # map (\<lambda>c. MsrWrite c a v) cs'"
      by (simp add: write_msr_all_cpus_def)
    then show ?thesis by blast
  qed
qed

lemma write_pl_watts_events:
  "new_events m (snd (write_pl_watts w1 w2 pu m)) = [MsrRead 0 MSR_PKG_POWER_LIMIT] \<or>
   (\<exists>r v cs'. msr_open m 0 False = None \<and> msr_reg m 0 MSR_PKG_POWER_LIMIT = Inr r \<and>
       pl_watts_raw (uint r) w1 w2 pu = Inr v \<and>
       new_events m (snd (write_pl_watts w1 w2 pu m)) =
         MsrRead 0 MSR_PKG_POWER_LIMIT # ListDir # map (\<lambda>c. MsrWrite c MSR_PKG_POWER_LIMIT v) cs')"
proof (cases "read_msr MSR_PKG_POWER_LIMIT 0 m")
  case (Pair r0 m1)
  show ?thesis
  proof (cases r0)
    case (Inl e)
    with Pair read_msr_Inl [of MSR_PKG_POWER_LIMIT 0 m e m1]
    show ?thesis by (simp add: write_pl_watts_def new_events_def)
  next
    case (Inr raw)
    with Pair read_msr_Inr [of MSR_PKG_POWER_LIMIT 0 m raw m1]
    obtain w where m1: "m1 = log_event (MsrRead 0 MSR_PKG_POWER_LIMIT) m"
      and op: "msr_open m 0 False = None"
      and rg: "msr_reg m 0 MSR_PKG_POWER_LIMIT = Inr w" and raw: "raw = uint w" by blast
    show ?thesis
    proof (cases "pl_watts_raw raw w1 w2 pu")
      case (Inl e)
      with Pair Inr m1 show ?thesis by (simp add: write_pl_watts_def new_events_def)
    next
      case (Inr v)
      from write_msr_all_cpus_trace [of MSR_PKG_POWER_LIMIT v m1] obtain cs' where
        "trace (snd (write_msr_all_cpus MSR_PKG_POWER_LIMIT v m1)) =
           trace m1 @ ListDir # map (\<lambda>c. MsrWrite c MSR_PKG_POWER_LIMIT v) cs'" by blast
      with Pair \<open>r0 = Inr raw\<close> Inr m1
      have "new_events m (snd (write_pl_watts w1 w2 pu m)) =
         MsrRead 0 MSR_PKG_POWER_LIMIT # ListDir # map (\<lambda>c. MsrWrite c MSR_PKG_POWER_LIMIT v) cs'"
        by (simp add: write_pl_watts_def new_events_def)
      with op rg raw Inr show ?thesis by blast
    qed
  qed
qed

lemma write_pl_watts_written:
  assumes "MsrWrite c a v \<in> set (new_events m (snd (write_pl_watts w1 w2 pu m)))"
  shows "a = MSR_PKG_POWER_LIMIT \<and> msr_open m 0 False = None \<and>
         (\<exists>r. msr_reg m 0 MSR_PKG_POWER_LIMIT = Inr r \<and> pl_watts_raw (uint r) w1 w2 pu = Inr v)"
  using write_pl_watts_events [of m w1 w2 pu] assms by auto

section \<open>The value \<open>write_pl_watts\<close> computes\<close>

lemma bit_set_bits:
  assumes "0 \<le> lo" "lo \<le> hi" "set_bits v hi lo f = Inr w"
  shows "bit w n = (if nat lo \<le> n \<and> n \<le> nat hi then bit f (n - nat lo) else bit v n)"
proof -
  from assms have w: "w = (v AND NOT (push_bit (nat lo) (mask (nat (hi - lo + 1)))))
          OR push_bit (nat lo) (take_bit (nat (hi - lo + 1)) f)"
    by (simp add: set_bits_ok)
  from assms(1,2) show ?thesis unfolding w
    by (auto simp add: bit_simps)
qed

lemma bit_bits:
  assumes "0 \<le> lo" "lo \<le> hi" "bits v hi lo = Inr w"
  shows "bit w n = (n \<le> nat (hi - lo) \<and> bit v (n + nat lo))"
proof -
  from assms have w: "w = take_bit (nat (hi - lo + 1)) (drop_bit (nat lo) v)"
    by (simp add: bits_ok)
  from assms(1,2) show ?thesis unfolding w
    by (auto simp add: bit_simps ac_simps)
qed

lemma set_bits_total: "0 \<le> lo \<Longrightarrow> lo \<le> hi \<Longrightarrow> \<exists>w. set_bits v hi lo f = Inr w"
  by (simp add: set_bits_ok)

lemma bits_total: "0 \<le> lo \<Longrightarrow> lo \<le> hi \<Longrightarrow> \<exists>w. bits v hi lo = Inr w"
  by (simp add: bits_ok)

lemma pl_watts_raw_Inr:
  assumes "pl_watts_raw raw w1 w2 pu = Inr v"
  shows "\<exists>r1 r2.
     (case w1 of None \<Rightarrow> r1 = raw
      | Some w \<Rightarrow> pu \<noteq> 0 \<and> (\<exists>r. set_bits raw 14 0 (py_round (w / pu)) = Inr r \<and> set_bits r 15 15 1 = Inr r1)) \<and>
     (case w2 of None \<Rightarrow> r2 = r1
      | Some w \<Rightarrow> pu \<noteq> 0 \<and> (\<exists>r. set_bits r1 46 32 (py_round (w / pu)) = Inr r \<and> set_bits r 47 47 1 = Inr r2)) \<and>
     set_bits r2 63 63 0 = Inr v"
  using assms
  by (auto simp add: pl_watts_raw_def err_bind_def py_div_def split: option.splits sum.splits if_splits)

lemma pl_watts_raw_bit:
  assumes "pl_watts_raw raw w1 w2 pu = Inr v"
  shows "bit v n =
     (if n = 63 then False
      else if n = 47 \<and> w2 \<noteq> None then True
      else if 32 \<le> n \<and> n \<le> 46 \<and> w2 \<noteq> None then bit (py_round (the w2 / pu)) (n - 32)
      else if n = 15 \<and> w1 \<noteq> None then True
      else if n \<le> 14 \<and> w1 \<noteq> None then bit (py_round (the w1 / pu)) n
      else bit raw n)"
proof -
  from pl_watts_raw_Inr [OF assms] obtain r1 r2 where
    a: "case w1 of None \<Rightarrow> r1 = raw
      | Some w \<Rightarrow> pu \<noteq> 0 \<and> (\<exists>r. set_bits raw 14 0 (py_round (w / pu)) = Inr r \<and> set_bits r 15 15 1 = Inr r1)"
    and b: "case w2 of None \<Rightarrow> r2 = r1
      | Some w \<Rightarrow> pu \<noteq> 0 \<and> (\<exists>r. set_bits r1 46 32 (py_round (w / pu)) = Inr r \<and> set_bits r 47 47 1 = Inr r2)"
    and c: "set_bits r2 63 63 0 = Inr v" by blast
  have v: "bit v n = (if n = 63 then False else bit r2 n)"
    using bit_set_bits [OF _ _ c, of n] by auto
  have r2: "bit r2 n = (if n = 47 \<and> w2 \<noteq> None then True
      else if 32 \<le> n \<and> n \<le> 46 \<and> w2 \<noteq> None then bit (py_round (the w2 / pu)) (n - 32)
      else bit r1 n)"
  proof (cases w2)
    case None
    with b show ?thesis by simp
  next
    case (Some w)
    with b obtain r where r: "set_bits r1 46 32 (py_round (w / pu)) = Inr r"
      and r2: "set_bits r 47 47 1 = Inr r2" by auto
    show ?thesis
      using bit_set_bits [OF _ _ r, of n] bit_set_bits [OF _ _ r2, of n] Some by auto
  qed
  have r1: "bit r1 n = (if n = 15 \<and> w1 \<noteq> None then True
      else if n \<le> 14 \<and> w1 \<noteq> None then bit (py_round (the w1 / pu)) n
      else bit raw n)"
  proof (cases w1)
    case None
    with a show ?thesis by simp
  next
    case (Some w)
    with a obtain r where r: "set_bits raw 14 0 (py_round (w / pu)) = Inr r"
      and r1: "set_bits r 15 15 1 = Inr r1" by auto
    show ?thesis
      using bit_set_bits [OF _ _ r, of n] bit_set_bits [OF _ _ r1, of n] Some by auto
  qed
  show ?thesis unfolding v r2 r1 by auto
qed

lemma pl_watts_raw_total:
  "pu \<noteq> 0 \<or> (w1 = None \<and> w2 = None) \<Longrightarrow> \<exists>v. pl_watts_raw raw w1 w2 pu = Inr v"
  by (auto simp add: pl_watts_raw_def err_bind_def py_div_def set_bits_ok split: option.splits)

lemma int_range_bits: "(0 \<le> (v::int) \<and> v < 2 ^ k) = (\<forall>n. bit v n \<longrightarrow> n < k)"
proof
  assume a: "0 \<le> v \<and> v < 2 ^ k"
  then have "take_bit k v = v" by (simp add: take_bit_int_eq_self)
  then have "\<And>n. bit v n = bit (take_bit k v) n" by simp
  then have "\<And>n. bit v n = (n < k \<and> bit v n)" by (simp add: bit_simps)
  then show "\<forall>n. bit v n \<longrightarrow> n < k" by blast
next
  assume a: "\<forall>n. bit v n \<longrightarrow> n < k"
  have "take_bit k v = v"
    by (rule bit_eqI) (use a in \<open>auto simp add: bit_simps\<close>)
  then show "0 \<le> v \<and> v < 2 ^ k"
    by (metis take_bit_int_less_exp take_bit_nonnegative)
qed

lemma pl_watts_raw_range:
  assumes "pl_watts_raw (uint (r::64 word)) w1 w2 pu = Inr v"
  shows "0 \<le> v \<and> v < 2 ^ 64"
proof -
  have "\<forall>n. bit v n \<longrightarrow> n < 64"
  proof (intro allI impI)
    fix n assume "bit v n"
    then have "n \<noteq> 63 \<and> (n \<le> 47 \<or> bit r n)"
      unfolding pl_watts_raw_bit [OF assms]
      by (auto simp add: bit_uint_iff split: if_splits)
    then show "n < 64"
      using bit_imp_le_length [of r n] by auto
  qed
  then show ?thesis using int_range_bits [of v 64] by blast
qed

text \<open>
  Claim C1. Whatever the power-limit register held when it was read (bit 63 set or not)
  and whatever wattages are passed (each present or absent), every value that
  \<open>write_pl_watts\<close> hands to \<open>write_msr\<close> has bit 63, the lock bit, equal to 0; the
  value is a 64-bit one, so packing it does not fail.
\<close>

theorem write_pl_watts_lock_bit_clear:
  "MsrWrite cpu msr v \<in> set (new_events m (snd (write_pl_watts w1 w2 pu m))) \<Longrightarrow>
   \<not> bit v 63 \<and> 0 \<le> v \<and> v < 2 ^ 64"
proof -
  assume "MsrWrite cpu msr v \<in> set (new_events m (snd (write_pl_watts w1 w2 pu m)))"
  from write_pl_watts_written [OF this] obtain r :: "64 word" where
    "pl_watts_raw (uint r) w1 w2 pu = Inr v" by blast
  then show ?thesis
    using pl_watts_raw_bit [of "uint r" w1 w2 pu v 63] pl_watts_raw_range [of r w1 w2 pu v]
    by simp
qed

theorem write_pl_watts_lock_bit_clear_witness:
  "MsrWrite 1 MSR_PKG_POWER_LIMIT 0x819000008168
     \<in> set (new_events (sample_machine 0x8000000000000000 0)
        (snd (write_pl_watts (Some 45) (Some 50) (1 / 8) (sample_machine 0x8000000000000000 0)))) \<and>
   \<not> bit (0x819000008168 :: int) 63 \<and> (0::int) \<le> 0x819000008168 \<and>
   (0x819000008168 :: int) < 2 ^ 64"
proof -
  have h: "MsrWrite 1 MSR_PKG_POWER_LIMIT 0x819000008168
     \<in> set (new_events (sample_machine 0x8000000000000000 0)
        (snd (write_pl_watts (Some 45) (Some 50) (1 / 8) (sample_machine 0x8000000000000000 0))))"
    by code_simp
  from write_pl_watts_lock_bit_clear [OF h] h show ?thesis by blast
qed

section \<open>Fields that a write leaves alone\<close>

lemma bits_cong:
  assumes "0 \<le> lo" "lo \<le> hi"
    and "\<And>n. nat lo \<le> n \<Longrightarrow> n \<le> nat hi \<Longrightarrow> bit v n = bit u n"
  shows "bits v hi lo = bits u hi lo"
proof -
  have "take_bit (nat (hi - lo + 1)) (drop_bit (nat lo) v)
      = take_bit (nat (hi - lo + 1)) (drop_bit (nat lo) u)"
  proof (rule bit_eqI)
    fix n
    show "bit (take_bit (nat (hi - lo + 1)) (drop_bit (nat lo) v)) n
        = bit (take_bit (nat (hi - lo + 1)) (drop_bit (nat lo) u)) n"
      using assms(1,2) assms(3) [of "nat lo + n"]
      by (auto simp add: bit_simps)
  qed
  with assms(1,2) show ?thesis by (simp add: bits_ok)
qed

lemma bits_field:
  assumes "0 \<le> lo" "lo \<le> hi"
    and "\<And>n. n \<le> nat (hi - lo) \<Longrightarrow> bit v (nat lo + n) = bit f n"
  shows "bits v hi lo = Inr (f AND mask (nat (hi - lo + 1)))"
proof -
  have "take_bit (nat (hi - lo + 1)) (drop_bit (nat lo) v) = f AND mask (nat (hi - lo + 1))"
  proof (rule bit_eqI)
    fix n
    show "bit (take_bit (nat (hi - lo + 1)) (drop_bit (nat lo) v)) n
        = bit (f AND mask (nat (hi - lo + 1))) n"
      using assms(1,2) assms(3) [of n]
      by (auto simp add: bit_simps)
  qed
  with assms(1,2) show ?thesis by (simp add: bits_ok)
qed

lemma pl_watts_raw_frame:
  assumes "pl_watts_raw raw w1 w2 pu = Inr v"
  shows "(w2 = None \<longrightarrow> bits v 46 32 = bits raw 46 32 \<and> bits v 47 47 = bits raw 47 47) \<and>
     (w1 = None \<longrightarrow> bits v 14 0 = bits raw 14 0 \<and> bits v 15 15 = bits raw 15 15) \<and>
     (\<forall>w. w1 = Some w \<longrightarrow> bits v 14 0 = Inr (py_round (w / pu) AND 0x7FFF) \<and> bits v 15 15 = Inr 1) \<and>
     (\<forall>w. w2 = Some w \<longrightarrow> bits v 46 32 = Inr (py_round (w / pu) AND 0x7FFF) \<and> bits v 47 47 = Inr 1)"
proof -
  note b = pl_watts_raw_bit [OF assms]
  have 1: "w2 = None \<Longrightarrow> bits v 46 32 = bits raw 46 32"
    by (rule bits_cong) (simp_all add: b)
  have 2: "w2 = None \<Longrightarrow> bits v 47 47 = bits raw 47 47"
    by (rule bits_cong) (simp_all add: b)
  have 3: "w1 = None \<Longrightarrow> bits v 14 0 = bits raw 14 0"
    by (rule bits_cong) (simp_all add: b)
  have 4: "w1 = None \<Longrightarrow> bits v 15 15 = bits raw 15 15"
    by (rule bits_cong) (simp_all add: b)
  have 5: "bits v 14 0 = Inr (py_round (w / pu) AND 0x7FFF)" if "w1 = Some w" for w
    using bits_field [of 0 14 v "py_round (w / pu)"] that
    by (simp add: b mask_eq_exp_minus_1)
  have 6: "bits v 15 15 = Inr 1" if "w1 = Some w" for w
    using bits_field [of 15 15 v 1] that
    by (simp add: b mask_eq_exp_minus_1 bit_simps)
  have 7: "bits v 46 32 = Inr (py_round (w / pu) AND 0x7FFF)" if "w2 = Some w" for w
    using bits_field [of 32 46 v "py_round (w / pu)"] that
    by (simp add: b mask_eq_exp_minus_1)
  have 8: "bits v 47 47 = Inr 1" if "w2 = Some w" for w
    using bits_field [of 47 47 v 1] that
    by (simp add: b mask_eq_exp_minus_1 bit_simps)
  from 1 2 3 4 5 6 7 8 show ?thesis by blast
qed

text \<open>
  Claim C3. For every value \<open>r\<close> the power-limit register of CPU 0 holds before the
  call, every value \<open>v\<close> that \<open>write_pl_watts\<close> broadcasts satisfies: with \<open>pl2_w\<close>
  absent, bits \<open>[46:32]\<close> and bit 47 of \<open>v\<close> are those of \<open>r\<close>; with \<open>pl1_w\<close>
  absent, bits \<open>[14:0]\<close> and bit 15 are those of \<open>r\<close>; a wattage that is present
  sets its field to \<open>round(watts / power_unit)\<close>, truncated to the 15 bits of the
  field, and its enable bit to 1. For \<open>pl1_w = 45.0\<close> and \<open>power_unit = 0.125\<close>
  the PL1 field is \<open>round(45.0 / 0.125) = 360\<close>.
\<close>

theorem write_pl_watts_frame:
  assumes "MsrWrite cpu msr v \<in> set (new_events m (snd (write_pl_watts w1 w2 pu m)))"
  shows "\<exists>r. msr_reg m 0 MSR_PKG_POWER_LIMIT = Inr r \<and>
     (w2 = None \<longrightarrow> bits v 46 32 = bits (uint r) 46 32 \<and> bits v 47 47 = bits (uint r) 47 47) \<and>
     (w1 = None \<longrightarrow> bits v 14 0 = bits (uint r) 14 0 \<and> bits v 15 15 = bits (uint r) 15 15) \<and>
     (\<forall>w. w1 = Some w \<longrightarrow> bits v 14 0 = Inr (py_round (w / pu) AND 0x7FFF) \<and> bits v 15 15 = Inr 1) \<and>
     (\<forall>w. w2 = Some w \<longrightarrow> bits v 46 32 = Inr (py_round (w / pu) AND 0x7FFF) \<and> bits v 47 47 = Inr 1) \<and>
     (w1 = Some 45 \<and> pu = 1 / 8 \<longrightarrow> bits v 14 0 = Inr 360)"
proof -
  from write_pl_watts_written [OF assms] obtain r :: "64 word" where
    r: "msr_reg m 0 MSR_PKG_POWER_LIMIT = Inr r" and v: "pl_watts_raw (uint r) w1 w2 pu = Inr v"
    by blast
  note f = pl_watts_raw_frame [OF v]
  have q: "py_round (45 / (1 / 8)) AND 0x7FFF = (360::int)"
    by (simp add: py_round_def)
  have "w1 = Some 45 \<and> pu = 1 / 8 \<longrightarrow> bits v 14 0 = Inr 360"
  proof (intro impI, elim conjE)
    assume w: "w1 = Some 45" and p: "pu = 1 / 8"
    from f w have "bits v 14 0 = Inr (py_round (45 / pu) AND 0x7FFF)" by blast
    then show "bits v 14 0 = Inr 360" unfolding p q .
  qed
  with r f show ?thesis by blast
qed

theorem write_pl_watts_frame_witness:
  "MsrWrite 0 MSR_PKG_POWER_LIMIT 0x0042819000DD8168
     \<in> set (new_events (sample_machine 0x8042819000DD1234 7)
        (snd (write_pl_watts (Some 45) None (1 / 8) (sample_machine 0x8042819000DD1234 7)))) \<and>
   bits 0x0042819000DD8168 46 32 = bits (uint (0x8042819000DD1234 :: 64 word)) 46 32 \<and>
   bits 0x0042819000DD8168 47 47 = bits (uint (0x8042819000DD1234 :: 64 word)) 47 47 \<and>
   bits 0x0042819000DD8168 14 0 = Inr 360 \<and>
   bits 0x0042819000DD8168 15 15 = Inr 1"
proof -
  have h: "MsrWrite 0 MSR_PKG_POWER_LIMIT 0x0042819000DD8168
     \<in> set (new_events (sample_machine 0x8042819000DD1234 7)
        (snd (write_pl_watts (Some 45) None (1 / 8) (sample_machine 0x8042819000DD1234 7))))"
    by code_simp
  from write_pl_watts_frame [OF h] obtain r where
    r: "msr_reg (sample_machine 0x8042819000DD1234 7) 0 MSR_PKG_POWER_LIMIT = Inr r"
    and c: "bits 0x0042819000DD8168 46 32 = bits (uint r) 46 32"
      "bits 0x0042819000DD8168 47 47 = bits (uint r) 47 47"
      "bits 0x0042819000DD8168 14 0 = Inr 360"
      "bits 0x0042819000DD8168 15 15 = Inr 1"
    by blast
  from r have "r = 0x8042819000DD1234" by (simp add: sample_machine_def)
  with c h show ?thesis by blast
qed

section \<open>One read, one value for every CPU\<close>

lemma fst_online_cpus:
  "fst (online_cpus m) =
     (case dev_cpu m of None \<Rightarrow> Inl OSError
      | Some entries \<Rightarrow> (case online_cpus_loop [] entries of Inl e \<Rightarrow> Inl e | Inr cpus \<Rightarrow> Inr (sort cpus)))"
  by (simp add: online_cpus_def Let_def split: option.splits sum.splits)

lemma write_msr_keeps:
  "msr_reg m c a = Inr (word_of_int v) \<Longrightarrow>
   msr_reg (snd (write_msr a v c' m)) c a = Inr (word_of_int v)"
  by (auto simp add: write_msr_def Let_def split: option.splits)

lemma write_msr_sets:
  "fst (write_msr a v c m) = Inr u \<Longrightarrow>
   msr_reg (snd (write_msr a v c m)) c a = Inr (word_of_int v)"
  by (auto simp add: write_msr_def Let_def split: option.splits if_splits)

lemma write_msr_each_keeps:
  "msr_reg m c a = Inr (word_of_int v) \<Longrightarrow>
   msr_reg (snd (write_msr_each a v cs m)) c a = Inr (word_of_int v)"
proof (induction cs arbitrary: m)
  case Nil
  then show ?case by simp
next
  case (Cons c' cs)
  show ?case
  proof (cases "write_msr a v c' m")
    case (Pair r m1)
    from write_msr_keeps [OF Cons.prems, of c'] Pair
    have k: "msr_reg m1 c a = Inr (word_of_int v)" by simp
    show ?thesis
    proof (cases r)
      case (Inl e)
      with Pair k show ?thesis by simp
    next
      case (Inr u)
      with Pair Cons.IH [OF k] show ?thesis by simp
    qed
  qed
qed

lemma write_msr_each_success:
  "fst (write_msr_each a v cs m) = Inr u \<Longrightarrow>
   \<forall>c\<in>set cs. msr_reg (snd (write_msr_each a v cs m)) c a = Inr (word_of_int v)"
proof (induction cs arbitrary: m)
  case Nil
  then show ?case by simp
next
  case (Cons c' cs)
  show ?case
  proof (cases "write_msr a v c' m")
    case (Pair r m1)
    show ?thesis
    proof (cases r)
      case (Inl e)
      with Pair Cons.prems show ?thesis by simp
    next
      case (Inr u')
      with Pair Cons.prems have s: "fst (write_msr_each a v cs m1) = Inr u" by simp
      from Pair Inr write_msr_sets [of a v c' m u']
      have "msr_reg m1 c' a = Inr (word_of_int v)" by simp
      from write_msr_each_keeps [OF this, of cs]
      have h: "msr_reg (snd (write_msr_each a v cs m1)) c' a = Inr (word_of_int v)" .
      from Cons.IH [OF s] h Pair Inr show ?thesis by simp
    qed
  qed
qed

lemma write_msr_all_cpus_success:
  assumes "fst (write_msr_all_cpus a v m) = Inr u"
  shows "\<exists>cs. fst (online_cpus m) = Inr cs \<and>
     (\<forall>c\<in>set cs. msr_reg (snd (write_msr_all_cpus a v m)) c a = Inr (word_of_int v))"
proof (cases "online_cpus m")
  case (Pair r m1)
  show ?thesis
  proof (cases r)
    case (Inl e)
    with Pair assms show ?thesis by (simp add: write_msr_all_cpus_def)
  next
    case (Inr cs)
    with Pair assms have "fst (write_msr_each a v cs m1) = Inr u"
      by (simp add: write_msr_all_cpus_def)
    from write_msr_each_success [OF this] Pair Inr show ?thesis
      by (simp add: write_msr_all_cpus_def)
  qed
qed

lemma write_pl_watts_success:
  assumes "fst (write_pl_watts w1 w2 pu m) = Inr u"
  shows "\<exists>w cs. fst (online_cpus m) = Inr cs \<and>
     (\<forall>c\<in>set cs. msr_reg (snd (write_pl_watts w1 w2 pu m)) c MSR_PKG_POWER_LIMIT = Inr w)"
proof (cases "read_msr MSR_PKG_POWER_LIMIT 0 m")
  case (Pair r0 m1)
  show ?thesis
  proof (cases r0)
    case (Inl e)
    with Pair assms show ?thesis by (simp add: write_pl_watts_def)
  next
    case (Inr raw)
    with Pair read_msr_Inr [of MSR_PKG_POWER_LIMIT 0 m raw m1]
    have m1: "m1 = log_event (MsrRead 0 MSR_PKG_POWER_LIMIT) m" by blast
    then have oc: "fst (online_cpus m1) = fst (online_cpus m)" by (simp add: fst_online_cpus)
    show ?thesis
    proof (cases "pl_watts_raw raw w1 w2 pu")
      case (Inl e)
      with Pair \<open>r0 = Inr raw\<close> assms show ?thesis by (simp add: write_pl_watts_def)
    next
      case (Inr v)
      with Pair \<open>r0 = Inr raw\<close> assms
      have eq: "write_pl_watts w1 w2 pu m = write_msr_all_cpus MSR_PKG_POWER_LIMIT v m1"
        by (simp add: write_pl_watts_def)
      with assms have "fst (write_msr_all_cpus MSR_PKG_POWER_LIMIT v m1) = Inr u" by simp
      from write_msr_all_cpus_success [OF this] oc eq show ?thesis by auto
    qed
  qed
qed

text \<open>Two machines that differ at most in what their registers hold.\<close>

lemma write_msr_same_hw:
  assumes "dev_cpu m2 = dev_cpu m1" "msr_open m2 = msr_open m1" "msr_write_err m2 = msr_write_err m1"
  shows "fst (write_msr a v c m2) = fst (write_msr a v c m1)"
  using assms by (simp add: write_msr_def Let_def split: option.splits)

lemma write_msr_each_same_hw:
  assumes "dev_cpu m2 = dev_cpu m1" "msr_open m2 = msr_open m1" "msr_write_err m2 = msr_write_err m1"
  shows "fst (write_msr_each a v cs m2) = fst (write_msr_each a v cs m1) \<and>
     (\<exists>es. trace (snd (write_msr_each a v cs m2)) = trace m2 @ es \<and>
           trace (snd (write_msr_each a v cs m1)) = trace m1 @ es)"
  using assms
proof (induction cs arbitrary: m1 m2)
  case Nil
  then show ?case by simp
next
  case (Cons c cs)
  obtain r1 n1 where p1: "write_msr a v c m1 = (r1, n1)" by (cases "write_msr a v c m1")
  obtain r2 n2 where p2: "write_msr a v c m2 = (r2, n2)" by (cases "write_msr a v c m2")
  from write_msr_same_hw [OF Cons.prems, of a v c] p1 p2 have r: "r2 = r1" by simp
  have t1: "trace n1 = trace m1 @ [MsrWrite c a v]"
    using write_msr_fields(1) [of a v c m1] p1 by simp
  have t2: "trace n2 = trace m2 @ [MsrWrite c a v]"
    using write_msr_fields(1) [of a v c m2] p2 by simp
  have hw: "dev_cpu n2 = dev_cpu n1" "msr_open n2 = msr_open n1" "msr_write_err n2 = msr_write_err n1"
    using write_msr_fields(2-4) [of a v c m1] write_msr_fields(2-4) [of a v c m2] p1 p2 Cons.prems
    by simp_all
  show ?case
  proof (cases r1)
    case (Inl e)
    with p1 p2 r t1 t2 show ?thesis by simp
  next
    case (Inr u)
    from Cons.IH [OF hw] obtain es where
      "fst (write_msr_each a v cs n2) = fst (write_msr_each a v cs n1)"
      "trace (snd (write_msr_each a v cs n2)) = trace n2 @ es"
      "trace (snd (write_msr_each a v cs n1)) = trace n1 @ es" by blast
    with p1 p2 r Inr t1 t2 show ?thesis by simp
  qed
qed

lemma write_msr_all_cpus_same_hw:
  assumes "dev_cpu m2 = dev_cpu m1" "msr_open m2 = msr_open m1" "msr_write_err m2 = msr_write_err m1"
  shows "fst (write_msr_all_cpus a v m2) = fst (write_msr_all_cpus a v m1) \<and>
     (\<exists>es. trace (snd (write_msr_all_cpus a v m2)) = trace m2 @ es \<and>
           trace (snd (write_msr_all_cpus a v m1)) = trace m1 @ es)"
proof -
  have oc: "fst (online_cpus m2) = fst (online_cpus m1)"
    using assms(1) by (simp add: fst_online_cpus)
  obtain r1 n1 where p1: "online_cpus m1 = (r1, n1)" by (cases "online_cpus m1")
  obtain r2 n2 where p2: "online_cpus m2 = (r2, n2)" by (cases "online_cpus m2")
  from oc p1 p2 have r: "r2 = r1" by simp
  have n1: "n1 = log_event ListDir m1" using snd_online_cpus [of m1] p1 by simp
  have n2: "n2 = log_event ListDir m2" using snd_online_cpus [of m2] p2 by simp
  show ?thesis
  proof (cases r1)
    case (Inl e)
    with p1 p2 r n1 n2 show ?thesis by (simp add: write_msr_all_cpus_def)
  next
    case (Inr cs)
    have hw: "dev_cpu n2 = dev_cpu n1" "msr_open n2 = msr_open n1" "msr_write_err n2 = msr_write_err n1"
      using assms n1 n2 by simp_all
    from write_msr_each_same_hw [OF hw, of a v cs] obtain es where
      "fst (write_msr_each a v cs n2) = fst (write_msr_each a v cs n1)"
      "trace (snd (write_msr_each a v cs n2)) = trace n2 @ es"
      "trace (snd (write_msr_each a v cs n1)) = trace n1 @ es" by blast
    with p1 p2 r Inr n1 n2 show ?thesis by (simp add: write_msr_all_cpus_def)
  qed
qed

lemma write_pl_watts_same_hw:
  assumes "dev_cpu m2 = dev_cpu m1" "msr_open m2 = msr_open m1" "msr_write_err m2 = msr_write_err m1"
    and "msr_reg m2 0 MSR_PKG_POWER_LIMIT = msr_reg m1 0 MSR_PKG_POWER_LIMIT"
  shows "fst (write_pl_watts w1 w2 pu m2) = fst (write_pl_watts w1 w2 pu m1) \<and>
     new_events m2 (snd (write_pl_watts w1 w2 pu m2)) = new_events m1 (snd (write_pl_watts w1 w2 pu m1))"
proof -
  obtain r1 n1 where p1: "read_msr MSR_PKG_POWER_LIMIT 0 m1 = (r1, n1)"
    by (cases "read_msr MSR_PKG_POWER_LIMIT 0 m1")
  obtain r2 n2 where p2: "read_msr MSR_PKG_POWER_LIMIT 0 m2 = (r2, n2)"
    by (cases "read_msr MSR_PKG_POWER_LIMIT 0 m2")
  have "fst (read_msr MSR_PKG_POWER_LIMIT 0 m2) = fst (read_msr MSR_PKG_POWER_LIMIT 0 m1)"
    by (simp only: fst_read_msr assms(2) assms(4))
  with p1 p2 have r: "r2 = r1" by simp
  have n1: "n1 = log_event (MsrRead 0 MSR_PKG_POWER_LIMIT) m1"
    using snd_read_msr [of MSR_PKG_POWER_LIMIT 0 m1] p1 by simp
  have n2: "n2 = log_event (MsrRead 0 MSR_PKG_POWER_LIMIT) m2"
    using snd_read_msr [of MSR_PKG_POWER_LIMIT 0 m2] p2 by simp
  show ?thesis
  proof (cases r1)
    case (Inl e)
    with p1 p2 r n1 n2 show ?thesis by (simp add: write_pl_watts_def new_events_def)
  next
    case (Inr raw)
    show ?thesis
    proof (cases "pl_watts_raw raw w1 w2 pu")
      case (Inl e)
      with p1 p2 r Inr n1 n2 show ?thesis by (simp add: write_pl_watts_def new_events_def)
    next
      case v: (Inr v)
      have hw: "dev_cpu n2 = dev_cpu n1" "msr_open n2 = msr_open n1" "msr_write_err n2 = msr_write_err n1"
        using assms(1-3) n1 n2 by simp_all
      from write_msr_all_cpus_same_hw [OF hw, of MSR_PKG_POWER_LIMIT v] obtain es where
        "fst (write_msr_all_cpus MSR_PKG_POWER_LIMIT v n2) = fst (write_msr_all_cpus MSR_PKG_POWER_LIMIT v n1)"
        "trace (snd (write_msr_all_cpus MSR_PKG_POWER_LIMIT v n2)) = trace n2 @ es"
        "trace (snd (write_msr_all_cpus MSR_PKG_POWER_LIMIT v n1)) = trace n1 @ es" by blast
      with p1 p2 r Inr v n1 n2 show ?thesis by (simp add: write_pl_watts_def new_events_def)
    qed
  qed
qed

text \<open>
  Claim C10. \<open>write_pl_watts\<close> reads one register, the power-limit register of CPU 0,
  and nothing else: its first event is that read and no other read follows. Two runs
  from machines that differ only in what the power-limit registers of the CPUs other than
  0 hold end with the same result and add the same events, the same broadcast value
  included. After a call that returns without an exception, the power-limit register of
  every online CPU holds one and the same value.
\<close>

theorem write_pl_watts_reads_cpu0_only:
  "(\<exists>es. new_events m (snd (write_pl_watts w1 w2 pu m)) = MsrRead 0 MSR_PKG_POWER_LIMIT # es \<and>
         (\<forall>c a. MsrRead c a \<notin> set es)) \<and>
   (\<forall>g. (\<forall>c a. c = 0 \<or> a \<noteq> MSR_PKG_POWER_LIMIT \<longrightarrow> g c a = msr_reg m c a) \<longrightarrow>
        fst (write_pl_watts w1 w2 pu (m\<lparr>msr_reg := g\<rparr>)) = fst (write_pl_watts w1 w2 pu m) \<and>
        new_events (m\<lparr>msr_reg := g\<rparr>) (snd (write_pl_watts w1 w2 pu (m\<lparr>msr_reg := g\<rparr>)))
          = new_events m (snd (write_pl_watts w1 w2 pu m))) \<and>
   (fst (write_pl_watts w1 w2 pu m) = Inr () \<longrightarrow>
      (\<exists>w cs. fst (online_cpus m) = Inr cs \<and>
         (\<forall>c\<in>set cs. msr_reg (snd (write_pl_watts w1 w2 pu m)) c MSR_PKG_POWER_LIMIT = Inr w)))"
proof (intro conjI allI impI)
  show "\<exists>es. new_events m (snd (write_pl_watts w1 w2 pu m)) = MsrRead 0 MSR_PKG_POWER_LIMIT # es \<and>
         (\<forall>c a. MsrRead c a \<notin> set es)"
    using write_pl_watts_events [of m w1 w2 pu] by auto
next
  fix g assume g: "\<forall>c a. c = 0 \<or> a \<noteq> MSR_PKG_POWER_LIMIT \<longrightarrow> g c a = msr_reg m c a"
  have "fst (write_pl_watts w1 w2 pu (m\<lparr>msr_reg := g\<rparr>)) = fst (write_pl_watts w1 w2 pu m) \<and>
        new_events (m\<lparr>msr_reg := g\<rparr>) (snd (write_pl_watts w1 w2 pu (m\<lparr>msr_reg := g\<rparr>)))
          = new_events m (snd (write_pl_watts w1 w2 pu m))"
    by (rule write_pl_watts_same_hw) (use g in simp_all)
  then show "fst (write_pl_watts w1 w2 pu (m\<lparr>msr_reg := g\<rparr>)) = fst (write_pl_watts w1 w2 pu m)"
    and "new_events (m\<lparr>msr_reg := g\<rparr>) (snd (write_pl_watts w1 w2 pu (m\<lparr>msr_reg := g\<rparr>)))
          = new_events m (snd (write_pl_watts w1 w2 pu m))" by blast+
next
  assume "fst (write_pl_watts w1 w2 pu m) = Inr ()"
  from write_pl_watts_success [OF this]
  show "\<exists>w cs. fst (online_cpus m) = Inr cs \<and>
         (\<forall>c\<in>set cs. msr_reg (snd (write_pl_watts w1 w2 pu m)) c MSR_PKG_POWER_LIMIT = Inr w)" .
qed


theorem write_pl_watts_reads_cpu0_only_witness:
  "fst (write_pl_watts (Some 45) None (1 / 8) (sample_machine 0x8042819000DD1234 7)) = Inr () \<and>
   new_events
     ((sample_machine 0x8042819000DD1234 7)
        \<lparr>msr_reg := (msr_reg (sample_machine 0x8042819000DD1234 7))
           (1 := (msr_reg (sample_machine 0x8042819000DD1234 7) 1)(MSR_PKG_POWER_LIMIT := Inr 9))\<rparr>)
     (snd (write_pl_watts (Some 45) None (1 / 8)
        ((sample_machine 0x8042819000DD1234 7)
           \<lparr>msr_reg := (msr_reg (sample_machine 0x8042819000DD1234 7))
              (1 := (msr_reg (sample_machine 0x8042819000DD1234 7) 1)(MSR_PKG_POWER_LIMIT := Inr 9))\<rparr>)))
     = new_events (sample_machine 0x8042819000DD1234 7)
         (snd (write_pl_watts (Some 45) None (1 / 8) (sample_machine 0x8042819000DD1234 7))) \<and>
   new_events (sample_machine 0x8042819000DD1234 7)
       (snd (write_pl_watts (Some 45) None (1 / 8) (sample_machine 0x8042819000DD1234 7)))
     = [MsrRead 0 0x610, ListDir, MsrWrite 0 0x610 0x0042819000DD8168,
        MsrWrite 1 0x610 0x0042819000DD8168] \<and>
   fst (online_cpus (sample_machine 0x8042819000DD1234 7)) = Inr [0, 1] \<and>
   msr_reg (snd (write_pl_watts (Some 45) None (1 / 8)
       (sample_machine 0x8042819000DD1234 7))) 0 MSR_PKG_POWER_LIMIT
     = msr_reg (snd (write_pl_watts (Some 45) None (1 / 8)
       (sample_machine 0x8042819000DD1234 7))) 1 MSR_PKG_POWER_LIMIT"
proof -
  have ev: "new_events (sample_machine 0x8042819000DD1234 7)
       (snd (write_pl_watts (Some 45) None (1 / 8) (sample_machine 0x8042819000DD1234 7)))
     = [MsrRead 0 0x610, ListDir, MsrWrite 0 0x610 0x0042819000DD8168,
        MsrWrite 1 0x610 0x0042819000DD8168]"
    by code_simp
  have ok: "fst (write_pl_watts (Some 45) None (1 / 8) (sample_machine 0x8042819000DD1234 7)) = Inr ()"
    by code_simp
  have cs: "fst (online_cpus (sample_machine 0x8042819000DD1234 7)) = Inr [0, 1]"
    by code_simp
  have g: "\<forall>c a. c = 0 \<or> a \<noteq> MSR_PKG_POWER_LIMIT \<longrightarrow>
      ((msr_reg (sample_machine 0x8042819000DD1234 7))
         (1 := (msr_reg (sample_machine 0x8042819000DD1234 7) 1)(MSR_PKG_POWER_LIMIT := Inr 9))) c a
      = msr_reg (sample_machine 0x8042819000DD1234 7) c a"
    by simp
  note t = write_pl_watts_reads_cpu0_only
    [of "sample_machine 0x8042819000DD1234 7" "Some 45" None "1 / 8"]
  from t g have two: "new_events
     ((sample_machine 0x8042819000DD1234 7)
        \<lparr>msr_reg := (msr_reg (sample_machine 0x8042819000DD1234 7))
           (1 := (msr_reg (sample_machine 0x8042819000DD1234 7) 1)(MSR_PKG_POWER_LIMIT := Inr 9))\<rparr>)
     (snd (write_pl_watts (Some 45) None (1 / 8)
        ((sample_machine 0x8042819000DD1234 7)
           \<lparr>msr_reg := (msr_reg (sample_machine 0x8042819000DD1234 7))
              (1 := (msr_reg (sample_machine 0x8042819000DD1234 7) 1)(MSR_PKG_POWER_LIMIT := Inr 9))\<rparr>)))
     = new_events (sample_machine 0x8042819000DD1234 7)
         (snd (write_pl_watts (Some 45) None (1 / 8) (sample_machine 0x8042819000DD1234 7)))"
    by blast
  from t ok obtain w cs' where
    "fst (online_cpus (sample_machine 0x8042819000DD1234 7)) = Inr cs'"
    "\<forall>c\<in>set cs'. msr_reg (snd (write_pl_watts (Some 45) None (1 / 8)
          (sample_machine 0x8042819000DD1234 7))) c MSR_PKG_POWER_LIMIT = Inr w"
    by blast
  with cs have same: "msr_reg (snd (write_pl_watts (Some 45) None (1 / 8)
       (sample_machine 0x8042819000DD1234 7))) 0 MSR_PKG_POWER_LIMIT
     = msr_reg (snd (write_pl_watts (Some 45) None (1 / 8)
       (sample_machine 0x8042819000DD1234 7))) 1 MSR_PKG_POWER_LIMIT"
    by simp
  from ok two ev cs same show ?thesis by blast
qed

section \<open>Decoding and re-encoding the power limits\<close>

lemma py_round_of_int: "py_round (of_int n) = n"
  by (simp add: py_round_def)

lemma py_round_scaled: "pu \<noteq> 0 \<Longrightarrow> py_round (of_int n * pu / pu) = n"
  by (simp add: py_round_of_int)

lemma read_power_limits_ok:
  assumes "msr_open m 0 False = None" "msr_reg m 0 MSR_PKG_POWER_LIMIT = Inr r"
  shows "\<exists>pl b1 b2. read_power_limits pu tu m = (Inr pl, log_event (MsrRead 0 MSR_PKG_POWER_LIMIT) m) \<and>
     bits (uint r) 14 0 = Inr b1 \<and> bits (uint r) 46 32 = Inr b2 \<and>
     pl1_w pl = of_int b1 * pu \<and> pl2_w pl = of_int b2 * pu"
proof -
  have rd: "read_msr MSR_PKG_POWER_LIMIT 0 m = (Inr (uint r), log_event (MsrRead 0 MSR_PKG_POWER_LIMIT) m)"
    using assms by (simp add: read_msr_def Let_def)
  show ?thesis
    by (simp add: read_power_limits_def rd err_bind_def bits_ok)
qed

text \<open>
  Claim C2, as the code has it. Let \<open>r\<close> be the power-limit register of CPU 0 and
  \<open>power_unit\<close> any non-zero unit (every unit of \<open>read_rapl_units\<close> is one). Decoding
  with \<open>read_power_limits\<close> succeeds, and re-encoding the decoded \<open>pl1_w\<close> and
  \<open>pl2_w\<close> with \<open>write_pl_watts\<close> and the same unit computes one value \<open>v\<close>, the only
  value it broadcasts: \<open>v\<close> is \<open>r\<close> bit for bit, except that bit 63 (lock) is 0 and
  bits 15 and 47 (the PL1 and PL2 enable bits) are 1. Both wattage fields and all other
  bits come back unchanged.
\<close>

theorem power_limits_roundtrip:
  assumes "msr_open m 0 False = None" "msr_reg m 0 MSR_PKG_POWER_LIMIT = Inr r" "pu \<noteq> 0"
  shows "\<exists>pl m1 v. read_power_limits pu tu m = (Inr pl, m1) \<and>
     pl_watts_raw (uint r) (Some (pl1_w pl)) (Some (pl2_w pl)) pu = Inr v \<and>
     (\<forall>n. bit v n = (n \<noteq> 63 \<and> (n = 15 \<or> n = 47 \<or> bit r n))) \<and>
     (\<forall>cpu msr v'.
        MsrWrite cpu msr v'
          \<in> set (new_events m1 (snd (write_pl_watts (Some (pl1_w pl)) (Some (pl2_w pl)) pu m1)))
        \<longrightarrow> v' = v)"
proof -
  from read_power_limits_ok [OF assms(1,2), of pu tu] obtain pl b1 b2 where
    rd: "read_power_limits pu tu m = (Inr pl, log_event (MsrRead 0 MSR_PKG_POWER_LIMIT) m)"
    and b1: "bits (uint r) 14 0 = Inr b1" and b2: "bits (uint r) 46 32 = Inr b2"
    and w1: "pl1_w pl = of_int b1 * pu" and w2: "pl2_w pl = of_int b2 * pu" by blast
  let ?m1 = "log_event (MsrRead 0 MSR_PKG_POWER_LIMIT) m"
  from pl_watts_raw_total [of pu "Some (pl1_w pl)" "Some (pl2_w pl)" "uint r"] assms(3)
  obtain v where v: "pl_watts_raw (uint r) (Some (pl1_w pl)) (Some (pl2_w pl)) pu = Inr v" by blast
  have bitv: "bit v n = (n \<noteq> 63 \<and> (n = 15 \<or> n = 47 \<or> bit r n))" for n
  proof -
    have r1: "py_round (pl1_w pl / pu) = b1" unfolding w1 using assms(3) by (rule py_round_scaled)
    have r2: "py_round (pl2_w pl / pu) = b2" unfolding w2 using assms(3) by (rule py_round_scaled)
    have c1: "bit b1 k = (k \<le> 14 \<and> bit r k)" for k
      using bit_bits [OF _ _ b1, of k] by (auto simp add: bit_uint_iff)
    have c2: "bit b2 k = (k \<le> 14 \<and> bit r (k + 32))" for k
      using bit_bits [OF _ _ b2, of k] by (auto simp add: bit_uint_iff)
    have hi: "bit r n \<Longrightarrow> n < 64" using bit_imp_le_length [of r n] by simp
    show ?thesis
      unfolding pl_watts_raw_bit [OF v]
      using hi by (auto simp add: r1 r2 c1 c2 bit_uint_iff)
  qed
  have same: "v' = v"
    if "MsrWrite cpu msr v'
          \<in> set (new_events ?m1 (snd (write_pl_watts (Some (pl1_w pl)) (Some (pl2_w pl)) pu ?m1)))"
    for cpu msr v'
  proof -
    from write_pl_watts_written [OF that] obtain r' where
      "msr_reg ?m1 0 MSR_PKG_POWER_LIMIT = Inr r'"
      "pl_watts_raw (uint r') (Some (pl1_w pl)) (Some (pl2_w pl)) pu = Inr v'" by blast
    with assms(2) v show ?thesis by simp
  qed
  from rd v bitv same show ?thesis by blast
qed


text \<open>
  Claim C2 as stated, that the re-encoded value is \<open>r\<close> except for bit 63, fails for a
  register whose enable bits are clear. For \<open>r = 0\<close> the decoded wattages are 0, and
  re-encoding them broadcasts \<open>0x800000008000\<close>: bits 15 and 47 are set, which they are
  not in \<open>r\<close>.
\<close>

theorem power_limits_roundtrip_counterexample:
  "fst (read_power_limits (1 / 8) (1 / 1024) (sample_machine 0 0))
     = Inr \<lparr>pl1_w = 0, pl1_enabled = False, pl1_time = 1 / 1024,
            pl2_w = 0, pl2_enabled = False, pl2_time = 1 / 1024, locked = False\<rparr> \<and>
   new_events (snd (read_power_limits (1 / 8) (1 / 1024) (sample_machine 0 0)))
       (snd (write_pl_watts (Some 0) (Some 0) (1 / 8)
          (snd (read_power_limits (1 / 8) (1 / 1024) (sample_machine 0 0)))))
     = [MsrRead 0 0x610, ListDir, MsrWrite 0 0x610 0x800000008000, MsrWrite 1 0x610 0x800000008000] \<and>
   bit (0x800000008000 :: int) 15 \<and> \<not> bit (0 :: 64 word) 15"
  by code_simp


theorem power_limits_roundtrip_witness:
  "fst (read_power_limits (1 / 8) (1 / 1024) (sample_machine 0x8042819000DD1234 7))
     = Inr \<lparr>pl1_w = 1165 / 2, pl1_enabled = False, pl1_time = 28,
            pl2_w = 50, pl2_enabled = True, pl2_time = 5 / 2048, locked = True\<rparr> \<and>
   pl_watts_raw (uint (0x8042819000DD1234 :: 64 word)) (Some (1165 / 2)) (Some 50) (1 / 8)
     = Inr 0x0042819000DD9234 \<and>
   bit (0x0042819000DD9234 :: int) 15 \<and> bit (0x0042819000DD9234 :: int) 47 \<and>
   \<not> bit (0x0042819000DD9234 :: int) 63"
proof -
  have a: "msr_open (sample_machine 0x8042819000DD1234 7) 0 False = None"
    and b: "msr_reg (sample_machine 0x8042819000DD1234 7) 0 MSR_PKG_POWER_LIMIT = Inr 0x8042819000DD1234"
    and c: "(1 / 8 :: rat) \<noteq> 0"
    by (simp_all add: sample_machine_def)
  have d: "fst (read_power_limits (1 / 8) (1 / 1024) (sample_machine 0x8042819000DD1234 7))
     = Inr \<lparr>pl1_w = 1165 / 2, pl1_enabled = False, pl1_time = 28,
            pl2_w = 50, pl2_enabled = True, pl2_time = 5 / 2048, locked = True\<rparr>"
    by code_simp
  from power_limits_roundtrip [OF a b c, of "1 / 1024"] obtain pl m1 v where
    rd: "read_power_limits (1 / 8) (1 / 1024) (sample_machine 0x8042819000DD1234 7) = (Inr pl, m1)"
    and v: "pl_watts_raw (uint (0x8042819000DD1234 :: 64 word)) (Some (pl1_w pl)) (Some (pl2_w pl)) (1 / 8) = Inr v"
    and bv: "\<forall>n. bit v n = (n \<noteq> 63 \<and> (n = 15 \<or> n = 47 \<or> bit (0x8042819000DD1234 :: 64 word) n))"
    by blast
  from rd d have pl: "pl = \<lparr>pl1_w = 1165 / 2, pl1_enabled = False, pl1_time = 28,
            pl2_w = 50, pl2_enabled = True, pl2_time = 5 / 2048, locked = True\<rparr>" by simp
  have e: "pl_watts_raw (uint (0x8042819000DD1234 :: 64 word)) (Some (1165 / 2)) (Some 50) (1 / 8)
     = Inr 0x0042819000DD9234" by code_simp
  from v pl e have "v = 0x0042819000DD9234" by simp
  with bv have "bit (0x0042819000DD9234 :: int) 15 \<and> bit (0x0042819000DD9234 :: int) 47 \<and>
   \<not> bit (0x0042819000DD9234 :: int) 63" by simp
  with d e show ?thesis by blast
qed

section \<open>Time windows\<close>

lemma and_31: "(x::int) AND 0x1F = x mod 32"
proof -
  have m: "(0x1F::int) = mask 5" by (simp add: mask_eq_exp_minus_1)
  have "x AND mask 5 = x mod 2 ^ 5"
    by (simp only: take_bit_eq_mask [symmetric] take_bit_eq_mod)
  then show ?thesis unfolding m by simp
qed

lemma and_3: "(x::int) AND 0x3 = x mod 4"
proof -
  have m: "(0x3::int) = mask 2" by (simp add: mask_eq_exp_minus_1)
  have "x AND mask 2 = x mod 2 ^ 2"
    by (simp only: take_bit_eq_mask [symmetric] take_bit_eq_mod)
  then show ?thesis unfolding m by simp
qed

lemma decode_time_window_eq:
  "decode_time_window field tu
     = 2 ^ nat (field mod 32) * (1 + of_int (field div 32 mod 4) / 4) * tu"
  by (simp add: decode_time_window_def Let_def and_31 and_3 drop_bit_eq_div)

lemma decode_time_window_fields:
  assumes "0 \<le> y" "y < 32" "0 \<le> z" "z < 4"
  shows "decode_time_window (y + 32 * z) tu = 2 ^ nat y * (1 + of_int z / 4) * tu"
proof -
  from assms have "(y + 32 * z) mod 32 = y" by simp
  moreover from assms have "(y + 32 * z) div 32 mod 4 = z" by simp
  ultimately show ?thesis by (simp add: decode_time_window_eq)
qed

lemma decode_time_window_mono:
  assumes "0 < tu" "0 \<le> y1" "y1 < y2" "y2 < 32" "0 \<le> z" "z < 4"
  shows "decode_time_window (y1 + 32 * z) tu < decode_time_window (y2 + 32 * z) tu"
proof -
  have p: "(2::rat) ^ nat y1 < 2 ^ nat y2" using assms by simp
  have q: "0 < (1 + of_int z / 4) * tu" using assms by (simp add: add_pos_nonneg)
  have "2 ^ nat y1 * ((1 + of_int z / 4) * tu) < 2 ^ nat y2 * ((1 + of_int z / 4) * tu)"
    using p q by (rule mult_strict_right_mono)
  moreover have "decode_time_window (y1 + 32 * z) tu = 2 ^ nat y1 * ((1 + of_int z / 4) * tu)"
    using decode_time_window_fields [of y1 z tu] assms by (simp add: mult.assoc)
  moreover have "decode_time_window (y2 + 32 * z) tu = 2 ^ nat y2 * ((1 + of_int z / 4) * tu)"
    using decode_time_window_fields [of y2 z tu] assms by (simp add: mult.assoc)
  ultimately show ?thesis by simp
qed

lemma read_rapl_units_positive:
  assumes "fst (read_rapl_units m) = Inr (pu, tu)"
  shows "0 < pu \<and> 0 < tu"
proof (cases "read_msr MSR_RAPL_POWER_UNIT 0 m")
  case (Pair r0 m1)
  show ?thesis
  proof (cases r0)
    case (Inl e)
    with Pair assms show ?thesis by (simp add: read_rapl_units_def)
  next
    case (Inr val)
    with Pair assms show ?thesis
      by (auto simp add: read_rapl_units_def err_bind_def bits_ok)
  qed
qed

text \<open>
  Claim C4. For every field and every time unit, the decoded window is
  \<open>2^Y * (1 + Z/4) * time_unit\<close> with \<open>Y\<close> the low five bits of the field
  (\<open>field mod 32\<close>) and \<open>Z\<close> the next two (\<open>field div 32 mod 4\<close>); put the other way
  round, the field made of \<open>Y < 32\<close> and \<open>Z < 4\<close> decodes to that product. So
  \<open>decode(Y=0, Z=0, time_unit=1.0)\<close> is 1, and for a fixed \<open>Z\<close> and a positive time unit
  the window grows strictly with \<open>Y\<close>. Every time unit that \<open>read_rapl_units\<close> returns
  is positive.
\<close>

theorem decode_time_window_formula:
  "decode_time_window field tu
     = 2 ^ nat (field mod 32) * (1 + of_int (field div 32 mod 4) / 4) * tu \<and>
   (0 \<le> y \<and> y < 32 \<and> 0 \<le> z \<and> z < 4 \<longrightarrow>
      decode_time_window (y + 32 * z) tu = 2 ^ nat y * (1 + of_int z / 4) * tu) \<and>
   decode_time_window 0 1 = 1 \<and>
   (0 < tu \<and> 0 \<le> y1 \<and> y1 < y2 \<and> y2 < 32 \<and> 0 \<le> z \<and> z < 4 \<longrightarrow>
      decode_time_window (y1 + 32 * z) tu < decode_time_window (y2 + 32 * z) tu) \<and>
   (fst (read_rapl_units m) = Inr (pu, tu) \<longrightarrow> 0 < tu)"
  using decode_time_window_eq [of field tu] decode_time_window_fields [of y z tu]
    decode_time_window_mono [of tu y1 y2 z] read_rapl_units_positive [of m pu tu]
    decode_time_window_fields [of 0 0 1]
  by simp


theorem decode_time_window_formula_witness:
  "decode_time_window (3 + 32 * 2) (1 / 1024) = 2 ^ nat 3 * (1 + of_int 2 / 4) * (1 / 1024) \<and>
   decode_time_window (3 + 32 * 2) (1 / 1024) = 3 / 256 \<and>
   decode_time_window (4 + 32 * 2) (1 / 1024) = 3 / 128 \<and>
   decode_time_window (3 + 32 * 2) (1 / 1024) < decode_time_window (4 + 32 * 2) (1 / 1024) \<and>
   fst (read_rapl_units (sample_machine 0xA0E03 0)) = Inr (1 / 8, 1 / 1024) \<and>
   (0::rat) < 1 / 1024"
proof -
  have u: "fst (read_rapl_units (sample_machine 0xA0E03 0)) = Inr (1 / 8, 1 / 1024)"
    by code_simp
  have a: "decode_time_window (3 + 32 * 2) (1 / 1024) = 3 / 256"
    and b: "decode_time_window (4 + 32 * 2) (1 / 1024) = 3 / 128"
    by code_simp+
  from decode_time_window_formula [of "3 + 32 * 2" "1 / 1024" 3 2 3 4 "sample_machine 0xA0E03 0" "1 / 8"] u a b
  show ?thesis by simp
qed

section \<open>Listing the CPUs\<close>

lemma digit_not_special:
  "is_digit_char c \<Longrightarrow> \<not> is_space_char c \<and> c \<noteq> CHR ''-'' \<and> c \<noteq> CHR ''+'' \<and> c \<noteq> CHR ''_''"
  by (auto simp add: is_digit_char_def is_space_char_def)

lemma int_digits_all:
  "list_all is_digit_char cs \<Longrightarrow>
   int_digits acc cs = Some (foldl (\<lambda>a c. a * 10 + digit_val c) acc cs)"
  by (induction acc cs rule: int_digits.induct) simp_all

lemma strip_isdigit:
  assumes "isdigit s"
  shows "strip s = s"
proof -
  from assms obtain c cs where s: "s = c # cs" and c: "is_digit_char c"
    by (cases s) (auto simp add: isdigit_def)
  from assms have "s \<noteq> []" and all: "list_all is_digit_char s" by (simp_all add: isdigit_def)
  then obtain d ds where r: "rev s = d # ds" by (cases "rev s") auto
  then have "d \<in> set s" by (metis list.set_intros(1) set_rev)
  with all have d: "is_digit_char d" by (simp add: list_all_iff)
  have 1: "dropWhile is_space_char s = s"
    using s c digit_not_special [of c] by simp
  have 2: "dropWhile is_space_char (rev s) = rev s"
    using r d digit_not_special [of d] by simp
  show ?thesis by (simp add: strip_def 1 2)
qed

lemma py_int_isdigit:
  assumes "isdigit s"
  shows "py_int s = Inr (cpu_number s)"
proof -
  from assms obtain c cs where s: "s = c # cs" and c: "is_digit_char c"
    and cs: "list_all is_digit_char cs"
    by (cases s) (auto simp add: isdigit_def)
  have u: "int_unsigned s = Some (foldl (\<lambda>a c. a * 10 + digit_val c) 0 s)"
    using c cs by (simp add: s int_unsigned_def int_digits_all)
  have st: "strip (c # cs) = c # cs"
    using strip_isdigit [OF assms] s by simp
  show ?thesis
    using digit_not_special [OF c] u
    by (simp add: py_int_def st Let_def cpu_number_def s)
qed

lemma online_cpus_loop_eq:
  "online_cpus_loop cpus entries = Inr (cpus @ map cpu_number (filter isdigit entries))"
  by (induction entries arbitrary: cpus) (simp_all add: py_int_isdigit)

lemma fst_online_cpus_eq:
  "fst (online_cpus m) =
     (case dev_cpu m of None \<Rightarrow> Inl OSError
      | Some entries \<Rightarrow> Inr (sort (map cpu_number (filter isdigit entries))))"
  by (simp add: fst_online_cpus online_cpus_loop_eq split: option.splits)

text \<open>
  Claim C9, as the code has it. When \<open>/dev/cpu\<close> exists, \<open>online_cpus\<close> returns the
  numbers of exactly those entries whose names are decimal digits only, sorted ascending;
  for an empty directory that is the empty list. When \<open>/dev/cpu\<close> does not exist,
  \<open>os.listdir\<close> raises and \<open>online_cpus\<close>, which has no handler, raises with it.
\<close>

theorem online_cpus_listing:
  "fst (online_cpus m) =
     (case dev_cpu m of None \<Rightarrow> Inl OSError
      | Some entries \<Rightarrow> Inr (sort (map cpu_number (filter isdigit entries)))) \<and>
   fst (online_cpus (m\<lparr>dev_cpu := Some []\<rparr>)) = Inr [] \<and>
   fst (online_cpus (m\<lparr>dev_cpu := None\<rparr>)) = Inl OSError"
  by (simp add: fst_online_cpus_eq)


theorem online_cpus_listing_witness:
  "fst (online_cpus ((sample_machine 0 0)\<lparr>dev_cpu := Some [''3'', ''10'', ''microcode'', ''0'', ''2x'', '''', ''1'']\<rparr>))
     = Inr [0, 1, 3, 10] \<and>
   sort (map cpu_number (filter isdigit [''3'', ''10'', ''microcode'', ''0'', ''2x'', '''', ''1'']))
     = [0, 1, 3, 10] \<and>
   fst (online_cpus ((sample_machine 0 0)\<lparr>dev_cpu := Some []\<rparr>)) = Inr [] \<and>
   fst (online_cpus ((sample_machine 0 0)\<lparr>dev_cpu := None\<rparr>)) = Inl OSError"
proof -
  have s: "sort (map cpu_number (filter isdigit [''3'', ''10'', ''microcode'', ''0'', ''2x'', '''', ''1'']))
     = [0, 1, 3, 10]" by code_simp
  from online_cpus_listing
    [of "(sample_machine 0 0)\<lparr>dev_cpu := Some [''3'', ''10'', ''microcode'', ''0'', ''2x'', '''', ''1'']\<rparr>"]
    online_cpus_listing [of "sample_machine 0 0"] s
  show ?thesis by simp
qed

text \<open>
  Claim C9 as stated, that an absent directory gives the empty list, fails: on a machine
  without \<open>/dev/cpu\<close> the call ends in an \<open>OSError\<close>.
\<close>

theorem online_cpus_absent_counterexample:
  "fst (online_cpus ((sample_machine 0 0)\<lparr>dev_cpu := None\<rparr>)) = Inl OSError \<and>
   fst (online_cpus ((sample_machine 0 0)\<lparr>dev_cpu := None\<rparr>)) \<noteq> Inr []"
  by code_simp

section \<open>Restoring the fan on exit\<close>

lemma fan_writes_simps [simp]:
  "fan_writes [] = []"
  "fan_writes (FanWrite t # es) = t # fan_writes es"
  "fan_writes (MsgWarning a b # es) = fan_writes es"
  "fan_writes (MsgCritical a b c # es) = fan_writes es"
  "fan_writes (xs @ ys) = fan_writes xs @ fan_writes ys"
  by (simp_all add: fan_writes_def)

lemma fan_write_cases:
  "fan_write text m =
     (case fan_write_err m (fan_written m) text of
        Some e \<Rightarrow> (Inl e, log_event (FanWrite text) m)
      | None \<Rightarrow> (Inr (), (log_event (FanWrite text) m)\<lparr>fan_written := fan_written m @ [text]\<rparr>))"
  by (simp add: fan_write_def Let_def)

lemma fan_write_fields [simp]:
  "trace (snd (fan_write text m)) = trace m @ [FanWrite text]"
  "fan_write_err (snd (fan_write text m)) = fan_write_err m"
  by (simp_all add: fan_write_cases split: option.splits)

lemma fan_write_ok:
  "fan_write_err m (fan_written m) text = None \<Longrightarrow>
   fst (fan_write text m) = Inr () \<and> fan_written (snd (fan_write text m)) = fan_written m @ [text]"
  by (simp add: fan_write_cases)

lemma fan_write_fail:
  "fan_write_err m (fan_written m) text = Some e \<Longrightarrow>
   fst (fan_write text m) = Inl e \<and> fan_written (snd (fan_write text m)) = fan_written m"
  by (simp add: fan_write_cases)

lemma new_events_append [simp]: "trace m' = trace m @ es \<Longrightarrow> new_events m m' = es"
  by (simp add: new_events_def)

text \<open>Two writes to the fan file in a row, the second only after the first went through.\<close>

lemma two_fan_writes:
  assumes "f = (case fan_write t1 m of (Inl e, m') \<Rightarrow> (Inl e, m') | (Inr u, m') \<Rightarrow> fan_write t2 m')"
  shows "trace (snd f) =
           trace m @ (if fan_write_err m (fan_written m) t1 = None then [FanWrite t1, FanWrite t2]
                      else [FanWrite t1])"
    and "fan_write_err (snd f) = fan_write_err m"
    and "fan_write_err m (fan_written m) t1 = None \<Longrightarrow>
         fan_write_err m (fan_written m @ [t1]) t2 = None \<Longrightarrow>
         fst f = Inr () \<and> fan_written (snd f) = fan_written m @ [t1, t2]"
    and "fan_write_err m (fan_written m) t1 = Some e \<Longrightarrow> fst f = Inl e"
    and "fan_write_err m (fan_written m) t1 = None \<Longrightarrow>
         fan_write_err m (fan_written m @ [t1]) t2 = Some e \<Longrightarrow> fst f = Inl e"
  unfolding assms
  by (simp_all add: fan_write_cases log_event_def split: option.splits)

lemma restore_fan_two:
  "restore_fan m =
     (case fan_write (''level auto'' @ [CHR 0x0A]) m of
        (Inl e, m') \<Rightarrow> (Inl e, m')
      | (Inr u, m') \<Rightarrow> fan_write (''watchdog 0'' @ [CHR 0x0A]) m')"
  by (simp add: restore_fan_def write_fan_level_def write_fan_watchdog_def py_str_def digit_char_def
      str_nat.simps split: prod.splits sum.splits)

text \<open>
  Claim C7, as the code has it. \<open>closeEvent\<close> never raises: for every window and every
  machine it returns with the event accepted, whatever the writes to the fan file do. With
  the fan interface available, it writes \<open>level auto\<close> to the fan file and, if that
  write goes through, then \<open>watchdog 0\<close>, in that order; when the \<open>level auto\<close> write
  fails, \<open>watchdog 0\<close> is not attempted (both are in one \<open>try\<close> block, so a failing
  \<open>level auto\<close> ends the clean-up). When both go through, the fan file has received
  exactly these two texts after what it held before. Nothing in this depends on the fan
  mode that was active.
\<close>

theorem closeEvent_restores_fan:
  "fst (closeEvent self m) = Inr True \<and>
   (fan_available self \<longrightarrow>
      fan_writes (new_events m (snd (closeEvent self m)))
        = (if fan_write_err m (fan_written m) (''level auto'' @ [CHR 0x0A]) = None
           then [''level auto'' @ [CHR 0x0A], ''watchdog 0'' @ [CHR 0x0A]]
           else [''level auto'' @ [CHR 0x0A]]) \<and>
      (fan_write_err m (fan_written m) (''level auto'' @ [CHR 0x0A]) = None \<and>
       fan_write_err m (fan_written m @ [''level auto'' @ [CHR 0x0A]]) (''watchdog 0'' @ [CHR 0x0A]) = None
       \<longrightarrow> fan_written (snd (closeEvent self m))
             = fan_written m @ [''level auto'' @ [CHR 0x0A], ''watchdog 0'' @ [CHR 0x0A]]))"
proof -
  have r: "fst (closeEvent self m) = Inr True"
    by (simp add: closeEvent_def split: prod.splits sum.splits)
  have s: "snd (closeEvent self m) = snd (restore_fan m)" if "fan_available self"
    using that by (simp add: closeEvent_def split: prod.splits sum.splits)
  note two = two_fan_writes [OF restore_fan_two [of m]]
  have t: "new_events m (snd (restore_fan m))
     = (if fan_write_err m (fan_written m) (''level auto'' @ [CHR 0x0A]) = None
        then [FanWrite (''level auto'' @ [CHR 0x0A]), FanWrite (''watchdog 0'' @ [CHR 0x0A])]
        else [FanWrite (''level auto'' @ [CHR 0x0A])])"
    using two(1) by (rule new_events_append)
  have w: "fan_written (snd (restore_fan m))
             = fan_written m @ [''level auto'' @ [CHR 0x0A], ''watchdog 0'' @ [CHR 0x0A]]"
    if "fan_write_err m (fan_written m) (''level auto'' @ [CHR 0x0A]) = None"
      "fan_write_err m (fan_written m @ [''level auto'' @ [CHR 0x0A]]) (''watchdog 0'' @ [CHR 0x0A]) = None"
    using two(3) [OF that] by simp
  from r s t w show ?thesis by simp
qed

theorem closeEvent_restores_fan_witness:
  "fst (closeEvent \<lparr>fan_available = True, ratio_inputs = [], fan_mode_index = 3, fan_level_value = 0\<rparr>
     ((sample_machine 0 0)\<lparr>fan_written := [''level disengaged'' @ [CHR 0x0A], ''watchdog 30'' @ [CHR 0x0A]]\<rparr>))
     = Inr True \<and>
   fan_writes (new_events
     ((sample_machine 0 0)\<lparr>fan_written := [''level disengaged'' @ [CHR 0x0A], ''watchdog 30'' @ [CHR 0x0A]]\<rparr>)
     (snd (closeEvent \<lparr>fan_available = True, ratio_inputs = [], fan_mode_index = 3, fan_level_value = 0\<rparr>
       ((sample_machine 0 0)\<lparr>fan_written := [''level disengaged'' @ [CHR 0x0A], ''watchdog 30'' @ [CHR 0x0A]]\<rparr>))))
     = [''level auto'' @ [CHR 0x0A], ''watchdog 0'' @ [CHR 0x0A]] \<and>
   fan_written
     (snd (closeEvent \<lparr>fan_available = True, ratio_inputs = [], fan_mode_index = 3, fan_level_value = 0\<rparr>
       ((sample_machine 0 0)\<lparr>fan_written := [''level disengaged'' @ [CHR 0x0A], ''watchdog 30'' @ [CHR 0x0A]]\<rparr>)))
     = [''level disengaged'' @ [CHR 0x0A], ''watchdog 30'' @ [CHR 0x0A],
        ''level auto'' @ [CHR 0x0A], ''watchdog 0'' @ [CHR 0x0A]] \<and>
   fst (closeEvent \<lparr>fan_available = True, ratio_inputs = [], fan_mode_index = 3, fan_level_value = 0\<rparr>
     ((sample_machine 0 0)\<lparr>fan_write_err := (\<lambda>written text. Some PermissionError)\<rparr>))
     = Inr True \<and>
   fan_writes (new_events
     ((sample_machine 0 0)\<lparr>fan_write_err := (\<lambda>written text. Some PermissionError)\<rparr>)
     (snd (closeEvent \<lparr>fan_available = True, ratio_inputs = [], fan_mode_index = 3, fan_level_value = 0\<rparr>
       ((sample_machine 0 0)\<lparr>fan_write_err := (\<lambda>written text. Some PermissionError)\<rparr>))))
     = [''level auto'' @ [CHR 0x0A]]"
  using closeEvent_restores_fan
      [of "\<lparr>fan_available = True, ratio_inputs = [], fan_mode_index = 3, fan_level_value = 0\<rparr>"
          "(sample_machine 0 0)\<lparr>fan_written := [''level disengaged'' @ [CHR 0x0A], ''watchdog 30'' @ [CHR 0x0A]]\<rparr>"]
    closeEvent_restores_fan
      [of "\<lparr>fan_available = True, ratio_inputs = [], fan_mode_index = 3, fan_level_value = 0\<rparr>"
          "(sample_machine 0 0)\<lparr>fan_write_err := (\<lambda>written text. Some PermissionError)\<rparr>"]
  by (simp add: sample_machine_def)

text \<open>
  Claim C7 as stated, that the clean-up writes \<open>level auto\<close> followed by \<open>watchdog 0\<close>
  even when the underlying writes fail, does not hold. With the fan disengaged and the
  watchdog armed, on a machine whose fan file refuses \<open>level auto\<close> with an \<open>OSError\<close>
  and would take any other text, \<open>closeEvent\<close> accepts the event, but \<open>level auto\<close> is
  the only write it attempts: \<open>watchdog 0\<close> is never issued, and the fan file still holds
  what it held before.
\<close>

theorem closeEvent_watchdog_counterexample:
  "fst (closeEvent \<lparr>fan_available = True, ratio_inputs = [], fan_mode_index = 3, fan_level_value = 0\<rparr>
     ((sample_machine 0 0)\<lparr>
        fan_write_err := (\<lambda>written t. if t = ''level auto'' @ [CHR 0x0A] then Some OSError else None),
        fan_written := [''level disengaged'' @ [CHR 0x0A], ''watchdog 30'' @ [CHR 0x0A]]\<rparr>))
     = Inr True \<and>
   fan_writes (new_events
     ((sample_machine 0 0)\<lparr>
        fan_write_err := (\<lambda>written t. if t = ''level auto'' @ [CHR 0x0A] then Some OSError else None),
        fan_written := [''level disengaged'' @ [CHR 0x0A], ''watchdog 30'' @ [CHR 0x0A]]\<rparr>)
     (snd (closeEvent \<lparr>fan_available = True, ratio_inputs = [], fan_mode_index = 3, fan_level_value = 0\<rparr>
       ((sample_machine 0 0)\<lparr>
          fan_write_err := (\<lambda>written t. if t = ''level auto'' @ [CHR 0x0A] then Some OSError else None),
          fan_written := [''level disengaged'' @ [CHR 0x0A], ''watchdog 30'' @ [CHR 0x0A]]\<rparr>))))
     = [''level auto'' @ [CHR 0x0A]] \<and>
   fan_writes (new_events
     ((sample_machine 0 0)\<lparr>
        fan_write_err := (\<lambda>written t. if t = ''level auto'' @ [CHR 0x0A] then Some OSError else None),
        fan_written := [''level disengaged'' @ [CHR 0x0A], ''watchdog 30'' @ [CHR 0x0A]]\<rparr>)
     (snd (closeEvent \<lparr>fan_available = True, ratio_inputs = [], fan_mode_index = 3, fan_level_value = 0\<rparr>
       ((sample_machine 0 0)\<lparr>
          fan_write_err := (\<lambda>written t. if t = ''level auto'' @ [CHR 0x0A] then Some OSError else None),
          fan_written := [''level disengaged'' @ [CHR 0x0A], ''watchdog 30'' @ [CHR 0x0A]]\<rparr>))))
     \<noteq> [''level auto'' @ [CHR 0x0A], ''watchdog 0'' @ [CHR 0x0A]] \<and>
   fan_written
     (snd (closeEvent \<lparr>fan_available = True, ratio_inputs = [], fan_mode_index = 3, fan_level_value = 0\<rparr>
       ((sample_machine 0 0)\<lparr>
          fan_write_err := (\<lambda>written t. if t = ''level auto'' @ [CHR 0x0A] then Some OSError else None),
          fan_written := [''level disengaged'' @ [CHR 0x0A], ''watchdog 30'' @ [CHR 0x0A]]\<rparr>)))
     = [''level disengaged'' @ [CHR 0x0A], ''watchdog 30'' @ [CHR 0x0A]]"
  by code_simp

section \<open>Applying a fan setting\<close>

lemma digit_char_in: "d < 10 \<Longrightarrow> digit_char d \<in> set ''0123456789''"
  unfolding digit_char_def by (rule nth_mem) simp

lemma str_nat_digits: "set (str_nat n) \<subseteq> set ''0123456789''"
proof (induction n rule: str_nat.induct)
  case (1 n)
  show ?case
  proof (cases "n < 10")
    case True
    then have "str_nat n = [digit_char n]" by (subst str_nat.simps) simp
    with digit_char_in [OF True] show ?thesis by simp
  next
    case False
    then have e: "str_nat n = str_nat (n div 10) @ [digit_char (n mod 10)]"
      by (subst str_nat.simps) simp
    have "digit_char (n mod 10) \<in> set ''0123456789''" by (rule digit_char_in) simp
    with 1 [OF False] show ?thesis unfolding e by simp
  qed
qed

lemma py_str_not_auto: "py_str n \<noteq> ''auto''"
proof (cases "n < 0")
  case True
  then show ?thesis by (simp add: py_str_def)
next
  case False
  have "CHR ''a'' \<notin> set (str_nat (nat n))" using str_nat_digits [of "nat n"] by auto
  moreover have "CHR ''a'' \<in> set ''auto''" by simp
  ultimately have "str_nat (nat n) \<noteq> ''auto''" by metis
  with False show ?thesis by (simp add: py_str_def)
qed

lemma fan_level_str_auto:
  "fan_level_str self = Some level \<Longrightarrow> (level = ''auto'') = (fan_mode_index self = 0)"
  using py_str_not_auto [of "fan_level_value self"]
  by (auto simp add: fan_level_str_def Let_def split: if_splits)

lemma py_str_30: "py_str FAN_WATCHDOG_SECONDS = ''30''" and py_str_0: "py_str 0 = ''0''"
  by (simp_all add: py_str_def FAN_WATCHDOG_SECONDS_def digit_char_def str_nat.simps)

lemma write_fan_setting_two:
  "write_fan_setting level m =
     (case fan_write (''level '' @ level @ [CHR 0x0A]) m of
        (Inl e, m') \<Rightarrow> (Inl e, m')
      | (Inr u, m') \<Rightarrow>
          fan_write ((if level = ''auto'' then ''watchdog 0'' else ''watchdog 30'') @ [CHR 0x0A]) m')"
  by (simp add: write_fan_setting_def write_fan_level_def write_fan_watchdog_def py_str_30 py_str_0
      split: prod.splits sum.splits)

lemma fan_handler:
  "\<exists>x post.
     (case p of
        (Inl PermissionError, m') \<Rightarrow> (Inr (), log_event fan_permission_error m')
      | (Inl e, m') \<Rightarrow>
          (Inr (), log_event (MsgCritical ''Error'' ''Failed to set fan level: '' (Some e)) m')
      | (Inr u, m') \<Rightarrow> (Inr (), m')) = (Inr (), x) \<and>
     trace x = trace (snd p) @ post \<and> fan_writes post = []"
proof (cases p)
  case (Pair r m')
  show ?thesis
  proof (cases r)
    case (Inl e)
    have f: "fan_writes [fan_permission_error] = []"
      by (simp add: fan_permission_error_def)
    have g: "fan_writes [MsgCritical ''Error'' ''Failed to set fan level: '' (Some e)] = []"
      by simp
    show ?thesis
    proof (cases e)
      case PermissionError
      have "(case p of
        (Inl PermissionError, m') \<Rightarrow> (Inr (), log_event fan_permission_error m')
      | (Inl e, m') \<Rightarrow>
          (Inr (), log_event (MsgCritical ''Error'' ''Failed to set fan level: '' (Some e)) m')
      | (Inr u, m') \<Rightarrow> (Inr (), m')) = (Inr (), log_event fan_permission_error m')"
        unfolding Pair Inl PermissionError by simp
      moreover have "trace (log_event fan_permission_error m') = trace (snd p) @ [fan_permission_error]"
        unfolding Pair by simp
      ultimately show ?thesis using f by blast
    next
      case OSError
      have "(case p of
        (Inl PermissionError, m') \<Rightarrow> (Inr (), log_event fan_permission_error m')
      | (Inl e, m') \<Rightarrow>
          (Inr (), log_event (MsgCritical ''Error'' ''Failed to set fan level: '' (Some e)) m')
      | (Inr u, m') \<Rightarrow> (Inr (), m'))
        = (Inr (), log_event (MsgCritical ''Error'' ''Failed to set fan level: '' (Some e)) m')"
        unfolding Pair Inl OSError by simp
      moreover have "trace (log_event (MsgCritical ''Error'' ''Failed to set fan level: '' (Some e)) m')
        = trace (snd p) @ [MsgCritical ''Error'' ''Failed to set fan level: '' (Some e)]"
        unfolding Pair by simp
      ultimately show ?thesis using g by blast
    next
      case ValueError
      have "(case p of
        (Inl PermissionError, m') \<Rightarrow> (Inr (), log_event fan_permission_error m')
      | (Inl e, m') \<Rightarrow>
          (Inr (), log_event (MsgCritical ''Error'' ''Failed to set fan level: '' (Some e)) m')
      | (Inr u, m') \<Rightarrow> (Inr (), m'))
        = (Inr (), log_event (MsgCritical ''Error'' ''Failed to set fan level: '' (Some e)) m')"
        unfolding Pair Inl ValueError by simp
      moreover have "trace (log_event (MsgCritical ''Error'' ''Failed to set fan level: '' (Some e)) m')
        = trace (snd p) @ [MsgCritical ''Error'' ''Failed to set fan level: '' (Some e)]"
        unfolding Pair by simp
      ultimately show ?thesis using g by blast
    next
      case ZeroDivisionError
      have "(case p of
        (Inl PermissionError, m') \<Rightarrow> (Inr (), log_event fan_permission_error m')
      | (Inl e, m') \<Rightarrow>
          (Inr (), log_event (MsgCritical ''Error'' ''Failed to set fan level: '' (Some e)) m')
      | (Inr u, m') \<Rightarrow> (Inr (), m'))
        = (Inr (), log_event (MsgCritical ''Error'' ''Failed to set fan level: '' (Some e)) m')"
        unfolding Pair Inl ZeroDivisionError by simp
      moreover have "trace (log_event (MsgCritical ''Error'' ''Failed to set fan level: '' (Some e)) m')
        = trace (snd p) @ [MsgCritical ''Error'' ''Failed to set fan level: '' (Some e)]"
        unfolding Pair by simp
      ultimately show ?thesis using g by blast
    next
      case IndexError
      have "(case p of
        (Inl PermissionError, m') \<Rightarrow> (Inr (), log_event fan_permission_error m')
      | (Inl e, m') \<Rightarrow>
          (Inr (), log_event (MsgCritical ''Error'' ''Failed to set fan level: '' (Some e)) m')
      | (Inr u, m') \<Rightarrow> (Inr (), m'))
        = (Inr (), log_event (MsgCritical ''Error'' ''Failed to set fan level: '' (Some e)) m')"
        unfolding Pair Inl IndexError by simp
      moreover have "trace (log_event (MsgCritical ''Error'' ''Failed to set fan level: '' (Some e)) m')
        = trace (snd p) @ [MsgCritical ''Error'' ''Failed to set fan level: '' (Some e)]"
        unfolding Pair by simp
      ultimately show ?thesis using g by blast
    next
      case StructError
      have "(case p of
        (Inl PermissionError, m') \<Rightarrow> (Inr (), log_event fan_permission_error m')
      | (Inl e, m') \<Rightarrow>
          (Inr (), log_event (MsgCritical ''Error'' ''Failed to set fan level: '' (Some e)) m')
      | (Inr u, m') \<Rightarrow> (Inr (), m'))
        = (Inr (), log_event (MsgCritical ''Error'' ''Failed to set fan level: '' (Some e)) m')"
        unfolding Pair Inl StructError by simp
      moreover have "trace (log_event (MsgCritical ''Error'' ''Failed to set fan level: '' (Some e)) m')
        = trace (snd p) @ [MsgCritical ''Error'' ''Failed to set fan level: '' (Some e)]"
        unfolding Pair by simp
      ultimately show ?thesis using g by blast
    qed
  next
    case (Inr u)
    have "(case p of
        (Inl PermissionError, m') \<Rightarrow> (Inr (), log_event fan_permission_error m')
      | (Inl e, m') \<Rightarrow>
          (Inr (), log_event (MsgCritical ''Error'' ''Failed to set fan level: '' (Some e)) m')
      | (Inr u, m') \<Rightarrow> (Inr (), m')) = (Inr (), m')"
      unfolding Pair Inr by simp
    moreover have "trace m' = trace (snd p) @ []" unfolding Pair by simp
    moreover have "fan_writes [] = []" by simp
    ultimately show ?thesis by blast
  qed
qed

lemma apply_fan_setting_unfold:
  assumes "fan_level_str self = Some level" "fan_mode_index self = 3 \<longrightarrow> reply_yes"
  shows "apply_fan_setting self reply_yes m =
     (case write_fan_setting level
             (if fan_mode_index self = 3 then log_event confirm_disengaged m else m) of
        (Inl PermissionError, m') \<Rightarrow> (Inr (), log_event fan_permission_error m')
      | (Inl e, m') \<Rightarrow>
          (Inr (), log_event (MsgCritical ''Error'' ''Failed to set fan level: '' (Some e)) m')
      | (Inr u, m') \<Rightarrow> (Inr (), m'))"
  unfolding apply_fan_setting_def Let_def using assms
  by (cases "fan_mode_index self = 3") simp_all

lemma apply_fan_setting_writes:
  assumes "fan_level_str self = Some level" "fan_mode_index self = 3 \<longrightarrow> reply_yes"
  shows "fst (apply_fan_setting self reply_yes m) = Inr () \<and>
     fan_writes (new_events m (snd (apply_fan_setting self reply_yes m))) =
       (if fan_write_err m (fan_written m) (''level '' @ level @ [CHR 0x0A]) = None
        then [''level '' @ level @ [CHR 0x0A],
              (if fan_mode_index self = 0 then ''watchdog 0'' else ''watchdog 30'') @ [CHR 0x0A]]
        else [''level '' @ level @ [CHR 0x0A]])"
proof -
  define m0 where "m0 = (if fan_mode_index self = 3 then log_event confirm_disengaged m else m)"
  define pre where "pre = (if fan_mode_index self = 3 then [confirm_disengaged] else [])"
  define body where "body =
      (if fan_write_err m (fan_written m) (''level '' @ level @ [CHR 0x0A]) = None
       then [FanWrite (''level '' @ level @ [CHR 0x0A]),
             FanWrite ((if level = ''auto'' then ''watchdog 0'' else ''watchdog 30'') @ [CHR 0x0A])]
       else [FanWrite (''level '' @ level @ [CHR 0x0A])])"
  have m0: "trace m0 = trace m @ pre" "fan_write_err m0 = fan_write_err m" "fan_written m0 = fan_written m"
    by (simp_all add: m0_def pre_def)
  have pre: "fan_writes pre = []" by (simp add: pre_def confirm_disengaged_def)
  have tr: "trace (snd (write_fan_setting level m0)) = trace m @ pre @ body"
    using two_fan_writes(1) [OF write_fan_setting_two [of level m0]] m0 by (simp add: body_def)
  from fan_handler [of "write_fan_setting level m0"] obtain x post where
    x: "apply_fan_setting self reply_yes m = (Inr (), x)"
    and post: "trace x = trace (snd (write_fan_setting level m0)) @ post"
    and fpost: "fan_writes post = []"
    unfolding apply_fan_setting_unfold [OF assms] m0_def by blast
  have "trace (snd (apply_fan_setting self reply_yes m)) = trace m @ (pre @ body @ post)"
    by (simp add: x post tr)
  then have "new_events m (snd (apply_fan_setting self reply_yes m)) = pre @ body @ post"
    by (rule new_events_append)
  then have "fan_writes (new_events m (snd (apply_fan_setting self reply_yes m))) = fan_writes body"
    by (simp add: pre fpost)
  moreover have "fan_writes body =
       (if fan_write_err m (fan_written m) (''level '' @ level @ [CHR 0x0A]) = None
        then [''level '' @ level @ [CHR 0x0A],
              (if fan_mode_index self = 0 then ''watchdog 0'' else ''watchdog 30'') @ [CHR 0x0A]]
        else [''level '' @ level @ [CHR 0x0A]])"
    unfolding body_def fan_level_str_auto [OF assms(1)] by simp
  ultimately show ?thesis using x by simp
qed

lemma apply_fan_setting_declined:
  assumes "fan_mode_index self = 3" "\<not> reply_yes"
  shows "apply_fan_setting self reply_yes m = (Inr (), log_event confirm_disengaged m)"
  using assms by (simp add: apply_fan_setting_def fan_level_str_def Let_def)

text \<open>
  Claim C8. Applying a fan setting (for Disengaged, once the operator has confirmed)
  never raises, and the writes it makes to the fan file are \<open>level <value>\<close> and then,
  once that write has gone through, \<open>watchdog 30\<close> for every mode but Auto and
  \<open>watchdog 0\<close> for Auto. The value is \<open>auto\<close> for Auto, the slider's number for
  Manual (\<open>0\<close> for level 0, never the text \<open>auto\<close>), \<open>full-speed\<close> and
  \<open>disengaged\<close>. A Disengaged setting that the operator declines writes nothing.
\<close>

theorem apply_fan_setting_watchdog:
  "(fan_level_str self = Some level \<and> (fan_mode_index self = 3 \<longrightarrow> reply_yes) \<longrightarrow>
      fst (apply_fan_setting self reply_yes m) = Inr () \<and>
      fan_writes (new_events m (snd (apply_fan_setting self reply_yes m))) =
        (if fan_write_err m (fan_written m) (''level '' @ level @ [CHR 0x0A]) = None
         then [''level '' @ level @ [CHR 0x0A],
               (if fan_mode_index self = 0 then ''watchdog 0'' else ''watchdog 30'') @ [CHR 0x0A]]
         else [''level '' @ level @ [CHR 0x0A]])) \<and>
   (fan_mode_index self = 3 \<and> \<not> reply_yes \<longrightarrow>
      fan_writes (new_events m (snd (apply_fan_setting self reply_yes m))) = []) \<and>
   fan_level_str (self\<lparr>fan_mode_index := 0\<rparr>) = Some ''auto'' \<and>
   fan_level_str (self\<lparr>fan_mode_index := 1\<rparr>) = Some (py_str (fan_level_value self)) \<and>
   fan_level_str (self\<lparr>fan_mode_index := 2\<rparr>) = Some ''full-speed'' \<and>
   fan_level_str (self\<lparr>fan_mode_index := 3\<rparr>) = Some ''disengaged'' \<and>
   py_str (fan_level_value self) \<noteq> ''auto'' \<and>
   py_str 0 = ''0'' \<and> py_str 7 = ''7''"
proof -
  have a: "fan_level_str self = Some level \<and> (fan_mode_index self = 3 \<longrightarrow> reply_yes) \<longrightarrow>
      fst (apply_fan_setting self reply_yes m) = Inr () \<and>
      fan_writes (new_events m (snd (apply_fan_setting self reply_yes m))) =
        (if fan_write_err m (fan_written m) (''level '' @ level @ [CHR 0x0A]) = None
         then [''level '' @ level @ [CHR 0x0A],
               (if fan_mode_index self = 0 then ''watchdog 0'' else ''watchdog 30'') @ [CHR 0x0A]]
         else [''level '' @ level @ [CHR 0x0A]])"
    using apply_fan_setting_writes [of self level reply_yes m] by blast
  have b: "fan_mode_index self = 3 \<and> \<not> reply_yes \<longrightarrow>
      fan_writes (new_events m (snd (apply_fan_setting self reply_yes m))) = []"
  proof (intro impI, elim conjE)
    assume h: "fan_mode_index self = 3" "\<not> reply_yes"
    have "trace (snd (apply_fan_setting self reply_yes m)) = trace m @ [confirm_disengaged]"
      by (simp add: apply_fan_setting_declined [OF h])
    then have "new_events m (snd (apply_fan_setting self reply_yes m)) = [confirm_disengaged]"
      by (rule new_events_append)
    then show "fan_writes (new_events m (snd (apply_fan_setting self reply_yes m))) = []"
      by (simp add: confirm_disengaged_def)
  qed
  have c: "fan_level_str (self\<lparr>fan_mode_index := 0\<rparr>) = Some ''auto''"
    "fan_level_str (self\<lparr>fan_mode_index := 1\<rparr>) = Some (py_str (fan_level_value self))"
    "fan_level_str (self\<lparr>fan_mode_index := 2\<rparr>) = Some ''full-speed''"
    "fan_level_str (self\<lparr>fan_mode_index := 3\<rparr>) = Some ''disengaged''"
    by (simp_all add: fan_level_str_def)
  have d: "py_str 0 = ''0''" "py_str 7 = ''7''"
    by (simp_all add: py_str_def digit_char_def str_nat.simps)
  from a b c d py_str_not_auto [of "fan_level_value self"] show ?thesis by blast
qed

theorem apply_fan_setting_watchdog_witness:
  "fan_writes (new_events (sample_machine 0 0)
     (snd (apply_fan_setting
        \<lparr>fan_available = True, ratio_inputs = [], fan_mode_index = 1, fan_level_value = 0\<rparr>
        False (sample_machine 0 0))))
     = [''level 0'' @ [CHR 0x0A], ''watchdog 30'' @ [CHR 0x0A]] \<and>
   fan_writes (new_events (sample_machine 0 0)
     (snd (apply_fan_setting
        \<lparr>fan_available = True, ratio_inputs = [], fan_mode_index = 0, fan_level_value = 5\<rparr>
        False (sample_machine 0 0))))
     = [''level auto'' @ [CHR 0x0A], ''watchdog 0'' @ [CHR 0x0A]] \<and>
   fan_writes (new_events (sample_machine 0 0)
     (snd (apply_fan_setting
        \<lparr>fan_available = True, ratio_inputs = [], fan_mode_index = 3, fan_level_value = 0\<rparr>
        True (sample_machine 0 0))))
     = [''level disengaged'' @ [CHR 0x0A], ''watchdog 30'' @ [CHR 0x0A]] \<and>
   fan_writes (new_events (sample_machine 0 0)
     (snd (apply_fan_setting
        \<lparr>fan_available = True, ratio_inputs = [], fan_mode_index = 3, fan_level_value = 0\<rparr>
        False (sample_machine 0 0))))
     = []"
proof -
  have e: "fan_write_err (sample_machine 0 0) h t = None" for h t
    by (simp add: sample_machine_def)
  have l1: "fan_level_str \<lparr>fan_available = True, ratio_inputs = [], fan_mode_index = 1, fan_level_value = 0\<rparr>
      = Some ''0'' \<and>
     (fan_mode_index \<lparr>fan_available = True, ratio_inputs = [], fan_mode_index = 1, fan_level_value = 0\<rparr> = 3
        \<longrightarrow> False)"
    by (simp add: fan_level_str_def py_str_def digit_char_def str_nat.simps)
  have l0: "fan_level_str \<lparr>fan_available = True, ratio_inputs = [], fan_mode_index = 0, fan_level_value = 5\<rparr>
      = Some ''auto'' \<and>
     (fan_mode_index \<lparr>fan_available = True, ratio_inputs = [], fan_mode_index = 0, fan_level_value = 5\<rparr> = 3
        \<longrightarrow> False)"
    by (simp add: fan_level_str_def)
  have l3: "fan_level_str \<lparr>fan_available = True, ratio_inputs = [], fan_mode_index = 3, fan_level_value = 0\<rparr>
      = Some ''disengaged'' \<and>
     (fan_mode_index \<lparr>fan_available = True, ratio_inputs = [], fan_mode_index = 3, fan_level_value = 0\<rparr> = 3
        \<longrightarrow> True)"
    by (simp add: fan_level_str_def)
  have d3: "fan_mode_index \<lparr>fan_available = True, ratio_inputs = [], fan_mode_index = 3, fan_level_value = 0\<rparr> = 3
      \<and> \<not> False"
    by simp
  note t1 = apply_fan_setting_watchdog
      [of "\<lparr>fan_available = True, ratio_inputs = [], fan_mode_index = 1, fan_level_value = 0\<rparr>"
          "''0''" False "sample_machine 0 0", THEN conjunct1, rule_format, OF l1, THEN conjunct2]
  note t0 = apply_fan_setting_watchdog
      [of "\<lparr>fan_available = True, ratio_inputs = [], fan_mode_index = 0, fan_level_value = 5\<rparr>"
          "''auto''" False "sample_machine 0 0", THEN conjunct1, rule_format, OF l0, THEN conjunct2]
  note t3 = apply_fan_setting_watchdog
      [of "\<lparr>fan_available = True, ratio_inputs = [], fan_mode_index = 3, fan_level_value = 0\<rparr>"
          "''disengaged''" True "sample_machine 0 0", THEN conjunct1, rule_format, OF l3, THEN conjunct2]
  note t4 = apply_fan_setting_watchdog
      [of "\<lparr>fan_available = True, ratio_inputs = [], fan_mode_index = 3, fan_level_value = 0\<rparr>"
          "''disengaged''" False "sample_machine 0 0", THEN conjunct2, THEN conjunct1, rule_format, OF d3]
  have a1: "fan_writes (new_events (sample_machine 0 0)
     (snd (apply_fan_setting
        \<lparr>fan_available = True, ratio_inputs = [], fan_mode_index = 1, fan_level_value = 0\<rparr>
        False (sample_machine 0 0))))
     = [''level 0'' @ [CHR 0x0A], ''watchdog 30'' @ [CHR 0x0A]]"
    unfolding t1 by (simp add: e)
  have a0: "fan_writes (new_events (sample_machine 0 0)
     (snd (apply_fan_setting
        \<lparr>fan_available = True, ratio_inputs = [], fan_mode_index = 0, fan_level_value = 5\<rparr>
        False (sample_machine 0 0))))
     = [''level auto'' @ [CHR 0x0A], ''watchdog 0'' @ [CHR 0x0A]]"
    unfolding t0 by (simp add: e)
  have a3: "fan_writes (new_events (sample_machine 0 0)
     (snd (apply_fan_setting
        \<lparr>fan_available = True, ratio_inputs = [], fan_mode_index = 3, fan_level_value = 0\<rparr>
        True (sample_machine 0 0))))
     = [''level disengaged'' @ [CHR 0x0A], ''watchdog 30'' @ [CHR 0x0A]]"
    unfolding t3 by (simp add: e)
  from a1 a0 a3 t4 show ?thesis by blast
qed

section \<open>Applying turbo ratios\<close>

lemma py_int_empty: "py_int [] = Inl ValueError"
  by (simp add: py_int_def strip_def)

lemma parse_ratios_loop_pass:
  "map (\<lambda>t. py_int (strip t)) texts = map Inr rs \<Longrightarrow>
   \<forall>r\<in>set rs. 20 \<le> r \<and> r \<le> 42 \<Longrightarrow>
   parse_ratios_loop i acc texts = Passed (acc @ rs)"
proof (induction texts arbitrary: i acc rs)
  case Nil
  then show ?case by simp
next
  case (Cons t texts)
  from Cons.prems(1) obtain r rs' where rs: "rs = r # rs'"
    and r: "py_int (strip t) = Inr r"
    and rest: "map (\<lambda>t. py_int (strip t)) texts = map Inr rs'"
    by (cases rs) auto
  from r have ne: "strip t \<noteq> []" using py_int_empty by auto
  from Cons.prems(2) rs have ok: "20 \<le> r" "r \<le> 42" and ok': "\<forall>r\<in>set rs'. 20 \<le> r \<and> r \<le> 42"
    by simp_all
  from Cons.IH [OF rest ok', of "i + 1" "acc @ [r]"] ne r ok rs
  show ?case by (simp add: Let_def)
qed

lemma parse_ratios_loop_reject:
  "map (\<lambda>t. py_int (strip t)) texts = map Inr rs \<Longrightarrow>
   \<exists>r\<in>set rs. r < 20 \<or> 42 < r \<Longrightarrow>
   \<exists>w. parse_ratios_loop i acc texts = Rejected (MsgWarning ''Input Error'' w)"
proof (induction texts arbitrary: i acc rs)
  case Nil
  then show ?case by simp
next
  case (Cons t texts)
  from Cons.prems(1) obtain r rs' where rs: "rs = r # rs'"
    and r: "py_int (strip t) = Inr r"
    and rest: "map (\<lambda>t. py_int (strip t)) texts = map Inr rs'"
    by (cases rs) auto
  from r have ne: "strip t \<noteq> []" using py_int_empty by auto
  show ?case
  proof (cases "r < 20 \<or> 42 < r")
    case True
    with ne r show ?thesis by (simp add: Let_def)
  next
    case False
    with Cons.prems(2) rs have "\<exists>r\<in>set rs'. r < 20 \<or> 42 < r" by auto
    from Cons.IH [OF rest this, of "i + 1" "acc @ [r]"] ne r False
    show ?thesis by (simp add: Let_def)
  qed
qed

lemma order_ratios_loop_pass:
  "\<forall>k. Suc k < length rs \<longrightarrow> rs ! Suc k \<le> rs ! k \<Longrightarrow> order_ratios_loop i rs = Passed ()"
proof (induction i rs rule: order_ratios_loop.induct)
  case (1 i a b rs)
  from "1.prems" have ab: "b \<le> a" by (auto dest: spec [of _ 0])
  have "\<forall>k. Suc k < length (b # rs) \<longrightarrow> (b # rs) ! Suc k \<le> (b # rs) ! k"
  proof (intro allI impI)
    fix k assume "Suc k < length (b # rs)"
    with "1.prems" [rule_format, of "Suc k"] show "(b # rs) ! Suc k \<le> (b # rs) ! k" by simp
  qed
  with "1.IH" ab show ?case by simp
qed simp_all

lemma order_ratios_loop_reject:
  "\<exists>k. Suc k < length rs \<and> rs ! k < rs ! Suc k \<Longrightarrow>
   \<exists>w. order_ratios_loop i rs = Rejected (MsgWarning ''Input Error'' w)"
proof (induction i rs rule: order_ratios_loop.induct)
  case (1 i a b rs)
  show ?case
  proof (cases "a < b")
    case True
    then show ?thesis by simp
  next
    case False
    from "1.prems" obtain k where k: "Suc k < length (a # b # rs)"
      "(a # b # rs) ! k < (a # b # rs) ! Suc k" by blast
    with False obtain k' where "k = Suc k'" by (cases k) auto
    with k have "\<exists>k. Suc k < length (b # rs) \<and> (b # rs) ! k < (b # rs) ! Suc k" by auto
    from "1.IH" [OF False this] False show ?thesis by simp
  qed
qed simp_all

lemma apply_ratios_rejects:
  assumes "map (\<lambda>t. py_int (strip t)) (ratio_inputs self) = map Inr rs"
    and "(\<exists>r\<in>set rs. r < 20 \<or> 42 < r) \<or> (\<exists>k. Suc k < length rs \<and> rs ! k < rs ! Suc k)"
  shows "\<exists>w. apply_ratios self m = (Inr (), log_event (MsgWarning ''Input Error'' w) m)"
proof (cases "\<exists>r\<in>set rs. r < 20 \<or> 42 < r")
  case True
  from parse_ratios_loop_reject [OF assms(1) True, of 0 "[]"] show ?thesis
    by (auto simp add: apply_ratios_def)
next
  case False
  then have "\<forall>r\<in>set rs. 20 \<le> r \<and> r \<le> 42" by auto
  from parse_ratios_loop_pass [OF assms(1) this, of 0 "[]"]
  have p: "parse_ratios_loop 0 [] (ratio_inputs self) = Passed rs" by simp
  from False assms(2) have "\<exists>k. Suc k < length rs \<and> rs ! k < rs ! Suc k" by blast
  from order_ratios_loop_reject [OF this, of 0] p show ?thesis
    by (auto simp add: apply_ratios_def)
qed

lemma apply_ratios_accepts:
  assumes "map (\<lambda>t. py_int (strip t)) (ratio_inputs self) = map Inr rs"
    and "\<forall>r\<in>set rs. 20 \<le> r \<and> r \<le> 42"
    and "\<forall>k. Suc k < length rs \<longrightarrow> rs ! Suc k \<le> rs ! k"
  shows "apply_ratios self m =
     (case write_new_ratios rs m of
        (Inl e, m') \<Rightarrow>
          (Inr (), log_event (MsgCritical ''Error'' ''Failed to write ratios: '' (Some e)) m')
      | (Inr u, m') \<Rightarrow> (Inr (), m'))"
  using parse_ratios_loop_pass [OF assms(1,2), of 0 "[]"] order_ratios_loop_pass [OF assms(3), of 0]
  by (simp add: apply_ratios_def)

lemma parse_30_32: "parse_ratios_loop 0 [] [''30'', ''32'', ''28'', ''26''] = Passed [30, 32, 28, 26]"
  by code_simp

lemma order_30_32:
  "order_ratios_loop 0 [30, 32, 28, 26]
     = Rejected (MsgWarning ''Input Error'' ''1-core ratio (30) must be >= 2-core ratio (32).'')"
  by code_simp

lemma parse_36_35: "map (\<lambda>t. py_int (strip t)) [''36'', ''35'', ''34'', ''33''] = map Inr [36, 35, 34, 33]"
  by code_simp

lemma write_turbo_ratios_loop_total:
  "0 \<le> i \<Longrightarrow> \<exists>v. write_turbo_ratios_loop val i rs = Inr v"
proof (induction rs arbitrary: val i)
  case Nil
  then show ?case by simp
next
  case (Cons r rs)
  from Cons.prems obtain val' where s: "set_bits val (i * 8 + 7) (i * 8) r = Inr val'"
    using set_bits_total [of "i * 8" "i * 8 + 7" val r] by auto
  from Cons.prems have "0 \<le> i + 1" by simp
  from Cons.IH [OF this, of val'] s show ?case by simp
qed

lemma write_turbo_ratios_loop_bit:
  assumes "0 \<le> i" "write_turbo_ratios_loop val i rs = Inr v"
  shows "bit v n =
     (if nat i * 8 \<le> n \<and> n < (nat i + length rs) * 8
      then bit (rs ! (n div 8 - nat i)) (n mod 8) else bit val n)"
  using assms
proof (induction rs arbitrary: val i)
  case Nil
  then show ?case by auto
next
  case (Cons r rs)
  define j where "j = nat i"
  from Cons.prems(1) have i: "i = int j" by (simp add: j_def)
  from Cons.prems(2) obtain val' where s: "set_bits val (i * 8 + 7) (i * 8) r = Inr val'"
    and l: "write_turbo_ratios_loop val' (i + 1) rs = Inr v"
    by (auto split: sum.splits)
  have lo8: "nat (i * 8) = j * 8" and hi8: "nat (i * 8 + 7) = j * 8 + 7" and i1: "nat (i + 1) = j + 1"
    unfolding i by (simp_all add: nat_add_distrib nat_mult_distrib)
  have b1: "bit val' n = (if j * 8 \<le> n \<and> n \<le> j * 8 + 7 then bit r (n - j * 8) else bit val n)"
  proof -
    have "0 \<le> i * 8" "i * 8 \<le> i * 8 + 7" using Cons.prems(1) by simp_all
    from bit_set_bits [OF this s, of n] show ?thesis unfolding lo8 hi8 .
  qed
  have b2: "bit v n =
     (if (j + 1) * 8 \<le> n \<and> n < (j + 1 + length rs) * 8
      then bit (rs ! (n div 8 - (j + 1))) (n mod 8) else bit val' n)"
  proof -
    have "0 \<le> i + 1" using Cons.prems(1) by simp
    from Cons.IH [OF this l] show ?thesis unfolding i1 .
  qed
  have len: "(j + length (r # rs)) * 8 = (j + 1 + length rs) * 8" by simp
  show ?case unfolding j_def [symmetric] len
  proof (cases "n < j * 8")
    case True
    then have "\<not> (j * 8 \<le> n)" "\<not> ((j + 1) * 8 \<le> n)" by simp_all
    then show "bit v n =
     (if j * 8 \<le> n \<and> n < (j + 1 + length rs) * 8
      then bit ((r # rs) ! (n div 8 - j)) (n mod 8) else bit val n)"
      unfolding b2 b1 by simp
  next
    case False
    then have ge: "j * 8 \<le> n" by simp
    show "bit v n =
     (if j * 8 \<le> n \<and> n < (j + 1 + length rs) * 8
      then bit ((r # rs) ! (n div 8 - j)) (n mod 8) else bit val n)"
    proof (cases "n \<le> j * 8 + 7")
      case True
      define k where "k = n - j * 8"
      from ge True have n: "n = k + j * 8" and k: "k < 8" by (simp_all add: k_def)
      have d: "n div 8 = j" unfolding n using k by simp
      have m: "n mod 8 = k" unfolding n using k by simp
      from True have nb: "\<not> ((j + 1) * 8 \<le> n)" "n < (j + 1 + length rs) * 8" by simp_all
      have "bit v n = bit r k" unfolding b2 b1 using nb ge True by (simp add: k_def)
      moreover have "(r # rs) ! (n div 8 - j) = r" unfolding d by simp
      ultimately show ?thesis using ge nb(2) m by simp
    next
      case False
      then have up: "(j + 1) * 8 \<le> n" by simp
      then have "(j + 1) * 8 div 8 \<le> n div 8" by (rule div_le_mono)
      then have dj: "j + 1 \<le> n div 8" by simp
      then have idx: "n div 8 - j = Suc (n div 8 - (j + 1))" by simp
      have nth: "(r # rs) ! (n div 8 - j) = rs ! (n div 8 - (j + 1))" unfolding idx by simp
      from False have nhere: "\<not> (j * 8 \<le> n \<and> n \<le> j * 8 + 7)" by simp
      show ?thesis unfolding b2 b1 nth using ge up nhere by simp
    qed
  qed
qed

lemma write_msr_each_all_ok:
  assumes "\<forall>c\<in>set cs. msr_open m c True = None \<and> msr_write_err m c a v = None"
    and "0 \<le> v" "v < 2 ^ 64"
  shows "fst (write_msr_each a v cs m) = Inr () \<and>
     trace (snd (write_msr_each a v cs m)) = trace m @ map (\<lambda>c. MsrWrite c a v) cs"
  using assms(1)
proof (induction cs arbitrary: m)
  case Nil
  then show ?case by simp
next
  case (Cons c cs)
  obtain r m1 where p: "write_msr a v c m = (r, m1)" by (cases "write_msr a v c m")
  from Cons.prems assms(2,3) have "fst (write_msr a v c m) = Inr ()"
    by (simp add: write_msr_def Let_def)
  with p have r: "r = Inr ()" by simp
  have f: "trace m1 = trace m @ [MsrWrite c a v]" "msr_open m1 = msr_open m"
    "msr_write_err m1 = msr_write_err m"
    using write_msr_fields(1,3,4) [of a v c m] p by simp_all
  with Cons.prems have "\<forall>c\<in>set cs. msr_open m1 c True = None \<and> msr_write_err m1 c a v = None"
    by simp
  from Cons.IH [OF this] p r f show ?case by simp
qed

lemma read_turbo_ratios_ok:
  assumes "msr_open m 0 False = None" "msr_reg m 0 MSR_TURBO_RATIO_LIMIT = Inr r"
  shows "read_turbo_ratios m =
     (Inr (map (\<lambda>k. take_bit 8 (drop_bit (8 * k) (uint r))) [0..<8]),
      log_event (MsrRead 0 MSR_TURBO_RATIO_LIMIT) m)"
proof -
  have rd: "read_msr MSR_TURBO_RATIO_LIMIT 0 m
      = (Inr (uint r), log_event (MsrRead 0 MSR_TURBO_RATIO_LIMIT) m)"
    using assms by (simp add: read_msr_def Let_def)
  have up: "[0..<8] = [0, 1, 2, 3, 4, 5, 6, 7 :: nat]"
    by (simp add: upt_rec)
  show ?thesis
    by (simp add: read_turbo_ratios_def rd bits_ok up)
qed

lemma replace_ratios_loop_four:
  "replace_ratios_loop (map f [0..<8]) [a, b, c, d] [0, 1, 2, 3] = Inr ([a, b, c, d] @ map f [4..<8])"
proof -
  have up: "[0..<8] = [0, 1, 2, 3, 4, 5, 6, 7 :: nat]" "[4..<8] = [4, 5, 6, 7 :: nat]"
    by (simp_all add: upt_rec)
  show ?thesis
    by (simp add: up eval_nat_numeral)
qed

lemma turbo_value:
  assumes "write_turbo_ratios_loop 0 0 ([a, b, c, d] @ map (\<lambda>k. take_bit 8 (drop_bit (8 * k) raw)) [4..<8]) = Inr V"
  shows "bits V 7 0 = Inr (a AND 0xFF) \<and> bits V 15 8 = Inr (b AND 0xFF) \<and>
     bits V 23 16 = Inr (c AND 0xFF) \<and> bits V 31 24 = Inr (d AND 0xFF) \<and>
     bits V 63 32 = bits raw 63 32 \<and> 0 \<le> V \<and> V < 2 ^ 64"
proof -
  define L where "L = [a, b, c, d] @ map (\<lambda>k. take_bit 8 (drop_bit (8 * k) raw)) [4..<8]"
  have len: "length L = 8" by (simp add: L_def)
  have a: "write_turbo_ratios_loop 0 0 L = Inr V" using assms unfolding L_def .
  have bitV: "bit V n = (if n < 64 then bit (L ! (n div 8)) (n mod 8) else False)" for n
    using write_turbo_ratios_loop_bit [OF _ a, of n] by (simp add: len)
  have byte: "bit V (k * 8 + t) = bit (L ! k) t" if "k < 8" "t < 8" for k t
  proof -
    have "k * 8 + t < 64" using that by simp
    moreover have "(k * 8 + t) div 8 = k" "(k * 8 + t) mod 8 = t" using that by simp_all
    ultimately show ?thesis by (simp add: bitV)
  qed
  have m8: "mask 8 = (0xFF::int)" by (simp add: mask_eq_exp_minus_1)
  have L0: "L ! 0 = a" and L1: "L ! 1 = b" "L ! Suc 0 = b" and L2: "L ! 2 = c" and L3: "L ! 3 = d"
    by (simp_all add: L_def)
  have b0: "bits V 7 0 = Inr (a AND 0xFF)"
  proof -
    have "bit V (nat 0 + n) = bit a n" if "n \<le> nat (7 - 0)" for n
      using byte [of 0 n] that by (simp add: L0)
    from bits_field [of 0 7 V a, OF _ _ this] show ?thesis by (simp add: m8)
  qed
  have b1: "bits V 15 8 = Inr (b AND 0xFF)"
  proof -
    have "bit V (nat 8 + n) = bit b n" if "n \<le> nat (15 - 8)" for n
      using byte [of 1 n] that by (simp add: L1 add.commute)
    from bits_field [of 8 15 V b, OF _ _ this] show ?thesis by (simp add: m8)
  qed
  have b2: "bits V 23 16 = Inr (c AND 0xFF)"
  proof -
    have "bit V (nat 16 + n) = bit c n" if "n \<le> nat (23 - 16)" for n
      using byte [of 2 n] that by (simp add: L2 add.commute)
    from bits_field [of 16 23 V c, OF _ _ this] show ?thesis by (simp add: m8)
  qed
  have b3: "bits V 31 24 = Inr (d AND 0xFF)"
  proof -
    have "bit V (nat 24 + n) = bit d n" if "n \<le> nat (31 - 24)" for n
      using byte [of 3 n] that by (simp add: L3 add.commute)
    from bits_field [of 24 31 V d, OF _ _ this] show ?thesis by (simp add: m8)
  qed
  have up: "bit V n = bit raw n" if "32 \<le> n" "n \<le> 63" for n
  proof -
    define k where "k = n div 8"
    define t where "t = n mod 8"
    have n: "n = k * 8 + t" and t: "t < 8" by (simp_all add: k_def t_def)
    from that have k: "4 \<le> k" "k < 8" unfolding k_def by simp_all
    then have "k = 4 \<or> k = 5 \<or> k = 6 \<or> k = 7" by arith
    then have "L ! k = take_bit 8 (drop_bit (8 * k) raw)"
      by (auto simp add: L_def)
    then have "bit (L ! k) t = bit raw (k * 8 + t)"
      using t by (simp add: bit_simps mult.commute add.commute)
    with byte [OF k(2) t] show ?thesis unfolding n by simp
  qed
  have b4: "bits V 63 32 = bits raw 63 32"
    by (rule bits_cong) (simp_all add: up)
  have "\<forall>n. bit V n \<longrightarrow> n < 64" by (simp add: bitV)
  then have rng: "0 \<le> V \<and> V < 2 ^ 64" using int_range_bits [of V 64] by blast
  from b0 b1 b2 b3 b4 rng show ?thesis by blast
qed

lemma write_new_ratios_ok:
  assumes op: "msr_open m 0 False = None"
    and rg: "msr_reg m 0 MSR_TURBO_RATIO_LIMIT = Inr r"
    and dc: "dev_cpu m = Some entries"
    and wo: "\<forall>cpu. msr_open m cpu True = None"
    and we: "\<forall>cpu v. msr_write_err m cpu MSR_TURBO_RATIO_LIMIT v = None"
  shows "\<exists>V m'. write_new_ratios [a, b, c, d] m = (Inr (), m') \<and>
     new_events m m' = MsrRead 0 MSR_TURBO_RATIO_LIMIT # ListDir #
        map (\<lambda>cpu. MsrWrite cpu MSR_TURBO_RATIO_LIMIT V) (sort (map cpu_number (filter isdigit entries))) \<and>
     (\<forall>cpu\<in>set (sort (map cpu_number (filter isdigit entries))).
        msr_reg m' cpu MSR_TURBO_RATIO_LIMIT = Inr (word_of_int V)) \<and>
     bits V 7 0 = Inr (a AND 0xFF) \<and> bits V 15 8 = Inr (b AND 0xFF) \<and>
     bits V 23 16 = Inr (c AND 0xFF) \<and> bits V 31 24 = Inr (d AND 0xFF) \<and>
     bits V 63 32 = bits (uint r) 63 32"
proof -
  define cpus where "cpus = sort (map cpu_number (filter isdigit entries))"
  define L where "L = [a, b, c, d] @ map (\<lambda>k. take_bit 8 (drop_bit (8 * k) (uint r))) [4..<8]"
  define m1 where "m1 = log_event (MsrRead 0 MSR_TURBO_RATIO_LIMIT) m"
  define m2 where "m2 = log_event ListDir m1"
  have rd: "read_turbo_ratios m
      = (Inr (map (\<lambda>k. take_bit 8 (drop_bit (8 * k) (uint r))) [0..<8]), m1)"
    unfolding m1_def by (rule read_turbo_ratios_ok [OF op rg])
  have rp: "replace_ratios_loop (map (\<lambda>k. take_bit 8 (drop_bit (8 * k) (uint r))) [0..<8])
      [a, b, c, d] [0, 1, 2, 3] = Inr L"
    unfolding L_def by (rule replace_ratios_loop_four)
  from write_turbo_ratios_loop_total [of 0 0 L] obtain V where
    V: "write_turbo_ratios_loop 0 0 L = Inr V" by auto
  from turbo_value [OF V [unfolded L_def]]
  have vb: "bits V 7 0 = Inr (a AND 0xFF)" "bits V 15 8 = Inr (b AND 0xFF)"
    "bits V 23 16 = Inr (c AND 0xFF)" "bits V 31 24 = Inr (d AND 0xFF)"
    "bits V 63 32 = bits (uint r) 63 32" and rng: "0 \<le> V" "V < 2 ^ 64"
    by blast+
  have wn: "write_new_ratios [a, b, c, d] m = write_msr_all_cpus MSR_TURBO_RATIO_LIMIT V m1"
    unfolding write_new_ratios_def rd
    by (simp only: prod.case sum.case rp write_turbo_ratios_def V)
  have oc: "online_cpus m1 = (Inr cpus, m2)"
  proof -
    have "fst (online_cpus m1) = Inr cpus"
      by (simp add: fst_online_cpus_eq m1_def dc cpus_def)
    moreover have "snd (online_cpus m1) = m2"
      by (simp add: snd_online_cpus m2_def)
    ultimately show ?thesis by (simp add: prod_eq_iff)
  qed
  have wa: "write_msr_all_cpus MSR_TURBO_RATIO_LIMIT V m1
      = write_msr_each MSR_TURBO_RATIO_LIMIT V cpus m2"
    by (simp add: write_msr_all_cpus_def oc)
  have hw: "\<forall>cpu\<in>set cpus. msr_open m2 cpu True = None \<and>
      msr_write_err m2 cpu MSR_TURBO_RATIO_LIMIT V = None"
    using wo we by (simp add: m2_def m1_def)
  note ok = write_msr_each_all_ok [OF hw rng]
  define m' where "m' = snd (write_msr_each MSR_TURBO_RATIO_LIMIT V cpus m2)"
  have res: "write_new_ratios [a, b, c, d] m = (Inr (), m')"
    using ok by (simp add: wn wa m'_def prod_eq_iff)
  have "trace m' = trace m @ (MsrRead 0 MSR_TURBO_RATIO_LIMIT # ListDir #
        map (\<lambda>cpu. MsrWrite cpu MSR_TURBO_RATIO_LIMIT V) cpus)"
    using ok by (simp add: m'_def m2_def m1_def)
  then have ev: "new_events m m' = MsrRead 0 MSR_TURBO_RATIO_LIMIT # ListDir #
        map (\<lambda>cpu. MsrWrite cpu MSR_TURBO_RATIO_LIMIT V) cpus"
    by (rule new_events_append)
  have "fst (write_msr_each MSR_TURBO_RATIO_LIMIT V cpus m2) = Inr ()" using ok by simp
  from write_msr_each_success [OF this]
  have regs: "\<forall>cpu\<in>set cpus. msr_reg m' cpu MSR_TURBO_RATIO_LIMIT = Inr (word_of_int V)"
    by (simp add: m'_def)
  from res ev regs vb show ?thesis unfolding cpus_def by blast
qed

lemma apply_ratios_36:
  assumes "ratio_inputs self = [''36'', ''35'', ''34'', ''33'']"
  shows "apply_ratios self m =
     (case write_new_ratios [36, 35, 34, 33] m of
        (Inl e, m') \<Rightarrow>
          (Inr (), log_event (MsgCritical ''Error'' ''Failed to write ratios: '' (Some e)) m')
      | (Inr u, m') \<Rightarrow> (Inr (), m'))"
proof -
  have p: "map (\<lambda>t. py_int (strip t)) (ratio_inputs self) = map Inr [36, 35, 34, 33]"
    unfolding assms by (rule parse_36_35)
  have r: "\<forall>r\<in>set [36, 35, 34, 33 :: int]. 20 \<le> r \<and> r \<le> 42" by simp
  have o: "\<forall>k. Suc k < length [36, 35, 34, 33 :: int] \<longrightarrow>
      [36, 35, 34, 33 :: int] ! Suc k \<le> [36, 35, 34, 33] ! k"
  proof (intro allI impI)
    fix k assume "Suc k < length [36, 35, 34, 33 :: int]"
    then have "k = 0 \<or> k = 1 \<or> k = 2" by auto
    then show "[36, 35, 34, 33 :: int] ! Suc k \<le> [36, 35, 34, 33] ! k" by auto
  qed
  from apply_ratios_accepts [OF p r o] show ?thesis .
qed

lemma apply_ratios_30:
  assumes "ratio_inputs self = [''30'', ''32'', ''28'', ''26'']"
  shows "apply_ratios self m =
     (Inr (), log_event (MsgWarning ''Input Error''
        ''1-core ratio (30) must be >= 2-core ratio (32).'') m)"
  unfolding apply_ratios_def assms parse_30_32
  by (simp only: checked.case order_30_32)

text \<open>
  Claim C6. \<open>_apply_ratios\<close> validates before it touches the hardware. When the line
  edits hold integers and one of them is outside 20 to 42, or one is strictly less than
  the next, the call shows an \<open>Input Error\<close> warning and returns: the warning is the only
  event, so no register is read or written, and the registers are as before. The entries
  \<open>[30, 32, 28, 26]\<close> are rejected with the message that the 1-core ratio must be at
  least the 2-core ratio. The entries \<open>[36, 35, 34, 33]\<close> are accepted: on a machine
  whose accesses succeed, CPU 0's turbo-ratio register is read once and one value is
  written to every online CPU, with bytes 0 to 3 equal to 36, 35, 34, 33 and bytes 4 to 7
  as read.
\<close>

theorem apply_ratios_validates_first:
  "(map (\<lambda>t. py_int (strip t)) (ratio_inputs self) = map Inr rs \<and>
    ((\<exists>r\<in>set rs. r < 20 \<or> 42 < r) \<or> (\<exists>k. Suc k < length rs \<and> rs ! k < rs ! Suc k)) \<longrightarrow>
      (\<exists>w. apply_ratios self m = (Inr (), log_event (MsgWarning ''Input Error'' w) m) \<and>
           new_events m (snd (apply_ratios self m)) = [MsgWarning ''Input Error'' w] \<and>
           msr_reg (snd (apply_ratios self m)) = msr_reg m)) \<and>
   apply_ratios (self\<lparr>ratio_inputs := [''30'', ''32'', ''28'', ''26'']\<rparr>) m =
      (Inr (), log_event (MsgWarning ''Input Error''
         ''1-core ratio (30) must be >= 2-core ratio (32).'') m) \<and>
   (msr_open m 0 False = None \<and> msr_reg m 0 MSR_TURBO_RATIO_LIMIT = Inr r \<and>
    dev_cpu m = Some entries \<and> (\<forall>cpu. msr_open m cpu True = None) \<and>
    (\<forall>cpu v. msr_write_err m cpu MSR_TURBO_RATIO_LIMIT v = None) \<longrightarrow>
      (\<exists>V m'. apply_ratios (self\<lparr>ratio_inputs := [''36'', ''35'', ''34'', ''33'']\<rparr>) m = (Inr (), m') \<and>
         new_events m m' = MsrRead 0 MSR_TURBO_RATIO_LIMIT # ListDir #
            map (\<lambda>cpu. MsrWrite cpu MSR_TURBO_RATIO_LIMIT V)
              (sort (map cpu_number (filter isdigit entries))) \<and>
         (\<forall>cpu\<in>set (sort (map cpu_number (filter isdigit entries))).
            msr_reg m' cpu MSR_TURBO_RATIO_LIMIT = Inr (word_of_int V)) \<and>
         bits V 7 0 = Inr 36 \<and> bits V 15 8 = Inr 35 \<and>
         bits V 23 16 = Inr 34 \<and> bits V 31 24 = Inr 33 \<and>
         bits V 63 32 = bits (uint r) 63 32))"
proof (intro conjI impI)
  assume h: "map (\<lambda>t. py_int (strip t)) (ratio_inputs self) = map Inr rs \<and>
    ((\<exists>r\<in>set rs. r < 20 \<or> 42 < r) \<or> (\<exists>k. Suc k < length rs \<and> rs ! k < rs ! Suc k))"
  then obtain w where
    w: "apply_ratios self m = (Inr (), log_event (MsgWarning ''Input Error'' w) m)"
    using apply_ratios_rejects [of self rs m] by blast
  have "new_events m (snd (apply_ratios self m)) = [MsgWarning ''Input Error'' w]"
    by (rule new_events_append) (simp add: w)
  moreover have "msr_reg (snd (apply_ratios self m)) = msr_reg m" by (simp add: w)
  ultimately show "\<exists>w. apply_ratios self m = (Inr (), log_event (MsgWarning ''Input Error'' w) m) \<and>
           new_events m (snd (apply_ratios self m)) = [MsgWarning ''Input Error'' w] \<and>
           msr_reg (snd (apply_ratios self m)) = msr_reg m"
    using w by blast
next
  show "apply_ratios (self\<lparr>ratio_inputs := [''30'', ''32'', ''28'', ''26'']\<rparr>) m =
      (Inr (), log_event (MsgWarning ''Input Error''
         ''1-core ratio (30) must be >= 2-core ratio (32).'') m)"
    by (rule apply_ratios_30) simp
next
  assume h: "msr_open m 0 False = None \<and> msr_reg m 0 MSR_TURBO_RATIO_LIMIT = Inr r \<and>
    dev_cpu m = Some entries \<and> (\<forall>cpu. msr_open m cpu True = None) \<and>
    (\<forall>cpu v. msr_write_err m cpu MSR_TURBO_RATIO_LIMIT v = None)"
  then have op: "msr_open m 0 False = None"
    and rg: "msr_reg m 0 MSR_TURBO_RATIO_LIMIT = Inr r"
    and dc: "dev_cpu m = Some entries"
    and wo: "\<forall>cpu. msr_open m cpu True = None"
    and we: "\<forall>cpu v. msr_write_err m cpu MSR_TURBO_RATIO_LIMIT v = None"
    by blast+
  from write_new_ratios_ok [OF op rg dc wo we, of 36 35 34 33] obtain V m' where
    wn: "write_new_ratios [36, 35, 34, 33] m = (Inr (), m')"
    and ev: "new_events m m' = MsrRead 0 MSR_TURBO_RATIO_LIMIT # ListDir #
        map (\<lambda>cpu. MsrWrite cpu MSR_TURBO_RATIO_LIMIT V) (sort (map cpu_number (filter isdigit entries)))"
    and regs: "\<forall>cpu\<in>set (sort (map cpu_number (filter isdigit entries))).
        msr_reg m' cpu MSR_TURBO_RATIO_LIMIT = Inr (word_of_int V)"
    and vb: "bits V 7 0 = Inr (36 AND 0xFF)" "bits V 15 8 = Inr (35 AND 0xFF)"
      "bits V 23 16 = Inr (34 AND 0xFF)" "bits V 31 24 = Inr (33 AND 0xFF)"
      "bits V 63 32 = bits (uint r) 63 32"
    by blast
  have ar: "apply_ratios (self\<lparr>ratio_inputs := [''36'', ''35'', ''34'', ''33'']\<rparr>) m = (Inr (), m')"
    using apply_ratios_36 [of "self\<lparr>ratio_inputs := [''36'', ''35'', ''34'', ''33'']\<rparr>" m]
    by (simp add: wn)
  have vb': "bits V 7 0 = Inr 36" "bits V 15 8 = Inr 35" "bits V 23 16 = Inr 34"
    "bits V 31 24 = Inr 33"
    using vb(1-4) by simp_all
  from ar ev regs vb' vb(5)
  show "\<exists>V m'. apply_ratios (self\<lparr>ratio_inputs := [''36'', ''35'', ''34'', ''33'']\<rparr>) m = (Inr (), m') \<and>
         new_events m m' = MsrRead 0 MSR_TURBO_RATIO_LIMIT # ListDir #
            map (\<lambda>cpu. MsrWrite cpu MSR_TURBO_RATIO_LIMIT V)
              (sort (map cpu_number (filter isdigit entries))) \<and>
         (\<forall>cpu\<in>set (sort (map cpu_number (filter isdigit entries))).
            msr_reg m' cpu MSR_TURBO_RATIO_LIMIT = Inr (word_of_int V)) \<and>
         bits V 7 0 = Inr 36 \<and> bits V 15 8 = Inr 35 \<and>
         bits V 23 16 = Inr 34 \<and> bits V 31 24 = Inr 33 \<and>
         bits V 63 32 = bits (uint r) 63 32"
    by blast
qed


theorem apply_ratios_validates_first_witness:
  "(\<exists>w. apply_ratios
        \<lparr>fan_available = True, ratio_inputs = [''43'', ''40'', ''30'', ''20''],
         fan_mode_index = 0, fan_level_value = 0\<rparr> (sample_machine 0x1A1B1C1D1E1F2021 0)
      = (Inr (), log_event (MsgWarning ''Input Error'' w) (sample_machine 0x1A1B1C1D1E1F2021 0))) \<and>
   (\<exists>w. apply_ratios
        \<lparr>fan_available = True, ratio_inputs = [''30'', ''32'', ''28'', ''26''],
         fan_mode_index = 0, fan_level_value = 0\<rparr> (sample_machine 0x1A1B1C1D1E1F2021 0)
      = (Inr (), log_event (MsgWarning ''Input Error'' w) (sample_machine 0x1A1B1C1D1E1F2021 0))) \<and>
   (\<exists>V m'. apply_ratios
        \<lparr>fan_available = True, ratio_inputs = [''36'', ''35'', ''34'', ''33''],
         fan_mode_index = 0, fan_level_value = 0\<rparr> (sample_machine 0x1A1B1C1D1E1F2021 0)
      = (Inr (), m') \<and>
      new_events (sample_machine 0x1A1B1C1D1E1F2021 0) m'
        = [MsrRead 0 MSR_TURBO_RATIO_LIMIT, ListDir,
           MsrWrite 0 MSR_TURBO_RATIO_LIMIT V, MsrWrite 1 MSR_TURBO_RATIO_LIMIT V] \<and>
      bits V 7 0 = Inr 36 \<and> bits V 15 8 = Inr 35 \<and> bits V 23 16 = Inr 34 \<and>
      bits V 31 24 = Inr 33 \<and>
      bits V 63 32 = bits (uint (0x1A1B1C1D1E1F2021 :: 64 word)) 63 32) \<and>
   new_events (sample_machine 0x1A1B1C1D1E1F2021 0)
     (snd (apply_ratios
        \<lparr>fan_available = True, ratio_inputs = [''36'', ''35'', ''34'', ''33''],
         fan_mode_index = 0, fan_level_value = 0\<rparr> (sample_machine 0x1A1B1C1D1E1F2021 0)))
     = [MsrRead 0 0x1AD, ListDir, MsrWrite 0 0x1AD 0x1A1B1C1D21222324,
        MsrWrite 1 0x1AD 0x1A1B1C1D21222324]"
proof -
  let ?M = "sample_machine 0x1A1B1C1D1E1F2021 0"
  let ?W43 = "\<lparr>fan_available = True, ratio_inputs = [''43'', ''40'', ''30'', ''20''],
         fan_mode_index = 0, fan_level_value = 0\<rparr>"
  let ?W30 = "\<lparr>fan_available = True, ratio_inputs = [''30'', ''32'', ''28'', ''26''],
         fan_mode_index = 0, fan_level_value = 0\<rparr>"
  let ?W36 = "\<lparr>fan_available = True, ratio_inputs = [''36'', ''35'', ''34'', ''33''],
         fan_mode_index = 0, fan_level_value = 0\<rparr>"
  have p43: "map (\<lambda>t. py_int (strip t)) [''43'', ''40'', ''30'', ''20''] = map Inr [43, 40, 30, 20]"
    by code_simp
  have h43: "map (\<lambda>t. py_int (strip t)) (ratio_inputs ?W43) = map Inr [43, 40, 30, 20] \<and>
    ((\<exists>r\<in>set [43, 40, 30, 20 :: int]. r < 20 \<or> 42 < r) \<or>
     (\<exists>k. Suc k < length [43, 40, 30, 20 :: int] \<and>
          [43, 40, 30, 20 :: int] ! k < [43, 40, 30, 20] ! Suc k))"
    using p43 by simp
  have p30: "map (\<lambda>t. py_int (strip t)) [''30'', ''32'', ''28'', ''26''] = map Inr [30, 32, 28, 26]"
    by code_simp
  have o30: "Suc 0 < length [30, 32, 28, 26 :: int] \<and>
      [30, 32, 28, 26 :: int] ! 0 < [30, 32, 28, 26] ! Suc 0" by simp
  have h30: "map (\<lambda>t. py_int (strip t)) (ratio_inputs ?W30) = map Inr [30, 32, 28, 26] \<and>
    ((\<exists>r\<in>set [30, 32, 28, 26 :: int]. r < 20 \<or> 42 < r) \<or>
     (\<exists>k. Suc k < length [30, 32, 28, 26 :: int] \<and>
          [30, 32, 28, 26 :: int] ! k < [30, 32, 28, 26] ! Suc k))"
    using p30 o30 by (simp del: nth_Cons_Suc nth_Cons_0 length_Cons) blast
  have hw: "msr_open ?M 0 False = None \<and>
    msr_reg ?M 0 MSR_TURBO_RATIO_LIMIT = Inr 0x1A1B1C1D1E1F2021 \<and>
    dev_cpu ?M = Some [''1'', ''microcode'', ''0''] \<and> (\<forall>cpu. msr_open ?M cpu True = None) \<and>
    (\<forall>cpu v. msr_write_err ?M cpu MSR_TURBO_RATIO_LIMIT v = None)"
    by (simp add: sample_machine_def)
  have cs: "sort (map cpu_number (filter isdigit [''1'', ''microcode'', ''0''])) = [0, 1]"
    by code_simp
  have ev: "new_events ?M (snd (apply_ratios ?W36 ?M))
     = [MsrRead 0 0x1AD, ListDir, MsrWrite 0 0x1AD 0x1A1B1C1D21222324,
        MsrWrite 1 0x1AD 0x1A1B1C1D21222324]"
    by code_simp
  note t43 = apply_ratios_validates_first
    [of ?W43 "[43, 40, 30, 20]" ?M 0 "[]", THEN conjunct1, rule_format, OF h43]
  note t30 = apply_ratios_validates_first
    [of ?W30 "[30, 32, 28, 26]" ?M 0 "[]", THEN conjunct1, rule_format, OF h30]
  note t36 = apply_ratios_validates_first
    [of ?W36 "[]" ?M "0x1A1B1C1D1E1F2021" "[''1'', ''microcode'', ''0'']",
      THEN conjunct2, THEN conjunct2, rule_format, OF hw]
  have a: "\<exists>w. apply_ratios ?W43 ?M = (Inr (), log_event (MsgWarning ''Input Error'' w) ?M)"
    using t43 by blast
  have b: "\<exists>w. apply_ratios ?W30 ?M = (Inr (), log_event (MsgWarning ''Input Error'' w) ?M)"
    using t30 by blast
  have c: "\<exists>V m'. apply_ratios ?W36 ?M = (Inr (), m') \<and>
      new_events ?M m'
        = [MsrRead 0 MSR_TURBO_RATIO_LIMIT, ListDir,
           MsrWrite 0 MSR_TURBO_RATIO_LIMIT V, MsrWrite 1 MSR_TURBO_RATIO_LIMIT V] \<and>
      bits V 7 0 = Inr 36 \<and> bits V 15 8 = Inr 35 \<and> bits V 23 16 = Inr 34 \<and>
      bits V 31 24 = Inr 33 \<and>
      bits V 63 32 = bits (uint (0x1A1B1C1D1E1F2021 :: 64 word)) 63 32"
  proof -
    from t36 obtain V m' where
      e1: "apply_ratios (?W36\<lparr>ratio_inputs := [''36'', ''35'', ''34'', ''33'']\<rparr>) ?M = (Inr (), m')"
      and e2: "new_events ?M m' = MsrRead 0 MSR_TURBO_RATIO_LIMIT # ListDir #
            map (\<lambda>cpu. MsrWrite cpu MSR_TURBO_RATIO_LIMIT V)
              (sort (map cpu_number (filter isdigit [''1'', ''microcode'', ''0''])))"
      and e3: "bits V 7 0 = Inr 36" "bits V 15 8 = Inr 35" "bits V 23 16 = Inr 34"
        "bits V 31 24 = Inr 33"
        "bits V 63 32 = bits (uint (0x1A1B1C1D1E1F2021 :: 64 word)) 63 32"
      by blast
    from e1 have e1': "apply_ratios ?W36 ?M = (Inr (), m')" by simp
    from e2 have e2': "new_events ?M m'
        = [MsrRead 0 MSR_TURBO_RATIO_LIMIT, ListDir,
           MsrWrite 0 MSR_TURBO_RATIO_LIMIT V, MsrWrite 1 MSR_TURBO_RATIO_LIMIT V]"
      unfolding cs by simp
    from e1' e2' e3 show ?thesis by blast
  qed
  from a b c ev show ?thesis by blast
qed

end
